theory Spec2Isabelle
  imports Complex_Main "HOL-Library.AList" "HOL-Library.Log_Nat"
begin

section \<open>Values of the host language\<close>

text \<open>
  A string of the program is a sequence of UTF-16 code units; the Arabic-Indic digits
  (U+0660 to U+0669) and the column labels lie outside Latin-1, so a code unit is a
  natural number here.
\<close>

type_synonym jsstring = "nat list"

text \<open>
  A number of the program is a double: a finite value, held here as the rational it
  denotes, an infinity or NaN. The two zeros are not told apart; a zero is the positive
  one.
\<close>

datatype number = Fin rat | PosInf | NegInf | NaN

text \<open>
  Rounding a rational to the nearest double, a tie going to the even significand: the
  binary exponent of the magnitude (not below that of the subnormals), the unit in
  the last of 53 places at that exponent, and the nearest multiple of the unit. A
  magnitude that rounds to \<open>2 ^ 1024\<close> or more overflows to an infinity.
\<close>

definition ilog2 :: "rat \<Rightarrow> int" where
  "ilog2 x =
     (case quotient_of x of (p, q) \<Rightarrow>
        (let d = bitlen p - bitlen q in if 2 powi d \<le> x then d else d - 1))"

definition roundHalfEven :: "rat \<Rightarrow> int" where
  "roundHalfEven x =
     (let f = \<lfloor>x\<rfloor>; r = x - of_int f
      in if r < 1 / 2 then f else if 1 / 2 < r then f + 1 else if even f then f else f + 1)"

definition roundMagnitude :: "rat \<Rightarrow> rat" where
  "roundMagnitude a =
     (let e = max (ilog2 a) (- 1022); ulp = 2 powi (e - 52)
      in of_int (roundHalfEven (a / ulp)) * ulp)"

definition toDouble :: "rat \<Rightarrow> number" where
  "toDouble x =
     (if x = 0 then Fin 0
      else (let y = roundMagnitude \<bar>x\<bar>
            in if 2 powi 1024 \<le> y then (if 0 < x then PosInf else NegInf)
               else Fin (if 0 < x then y else - y)))"

text \<open>The arithmetic of doubles: the exact result, rounded.\<close>

fun times_number :: "number \<Rightarrow> number \<Rightarrow> number" where
  "times_number (Fin a) (Fin b) = toDouble (a * b)"
| "times_number NaN _ = NaN"
| "times_number _ NaN = NaN"
| "times_number PosInf (Fin b) = (if b = 0 then NaN else if 0 < b then PosInf else NegInf)"
| "times_number NegInf (Fin b) = (if b = 0 then NaN else if 0 < b then NegInf else PosInf)"
| "times_number (Fin a) PosInf = (if a = 0 then NaN else if 0 < a then PosInf else NegInf)"
| "times_number (Fin a) NegInf = (if a = 0 then NaN else if 0 < a then NegInf else PosInf)"
| "times_number PosInf PosInf = PosInf"
| "times_number NegInf NegInf = PosInf"
| "times_number PosInf NegInf = NegInf"
| "times_number NegInf PosInf = NegInf"

fun plus_number :: "number \<Rightarrow> number \<Rightarrow> number" where
  "plus_number (Fin a) (Fin b) = toDouble (a + b)"
| "plus_number NaN _ = NaN"
| "plus_number _ NaN = NaN"
| "plus_number PosInf NegInf = NaN"
| "plus_number NegInf PosInf = NaN"
| "plus_number PosInf _ = PosInf"
| "plus_number NegInf _ = NegInf"
| "plus_number (Fin a) PosInf = PosInf"
| "plus_number (Fin a) NegInf = NegInf"

fun minus_number :: "number \<Rightarrow> number \<Rightarrow> number" where
  "minus_number a (Fin b) = plus_number a (Fin (- b))"
| "minus_number a PosInf = plus_number a NegInf"
| "minus_number a NegInf = plus_number a PosInf"
| "minus_number a NaN = NaN"

fun divide_number :: "number \<Rightarrow> number \<Rightarrow> number" where
  "divide_number (Fin a) (Fin b) =
     (if b = 0 then (if a = 0 then NaN else if 0 < a then PosInf else NegInf)
      else toDouble (a / b))"
| "divide_number NaN _ = NaN"
| "divide_number _ NaN = NaN"
| "divide_number (Fin a) _ = Fin 0"
| "divide_number PosInf (Fin b) = (if 0 \<le> b then PosInf else NegInf)"
| "divide_number NegInf (Fin b) = (if 0 \<le> b then NegInf else PosInf)"
| "divide_number _ _ = NaN"

text \<open>
  A cell of a parsed sheet row. A native date carries its time value in milliseconds
  since 1970-01-01 UTC, or nothing when it is an invalid date.
\<close>

datatype cell =
    CNull
  | CDate "int option"
  | CNumber number
  | CString jsstring
  | CBool bool

text \<open>
  What the program takes from its runtime: the generic date parser behind
  \<^verbatim>\<open>new Date(text)\<close> (\<open>None\<close> for an invalid date), \<^verbatim>\<open>Number(text)\<close>, the local-time
  constructor \<^verbatim>\<open>new Date(year, monthIndex, day)\<close>, \<^verbatim>\<open>String(v)\<close> for a cell that is not
  text, and the offset of local time from UTC at a time value.
\<close>

record host =
  dateParse :: "jsstring \<Rightarrow> int option"
  toNumber :: "jsstring \<Rightarrow> number"
  localDate :: "number \<Rightarrow> number \<Rightarrow> number \<Rightarrow> int option"
  toString :: "cell \<Rightarrow> jsstring"
  localOffset :: "int \<Rightarrow> int"

section \<open>Text helpers\<close>

definition isWhiteSpace :: "nat \<Rightarrow> bool" where
  "isWhiteSpace c \<longleftrightarrow>
     c \<in> {0x09, 0x0A, 0x0B, 0x0C, 0x0D, 0x20, 0xA0, 0x1680, 0x2028, 0x2029, 0x202F,
          0x205F, 0x3000, 0xFEFF} \<or> (0x2000 \<le> c \<and> c \<le> 0x200A)"

definition trim :: "jsstring \<Rightarrow> jsstring" where
  "trim s = rev (dropWhile isWhiteSpace (rev (dropWhile isWhiteSpace s)))"

definition arabicDigitMap :: "(nat \<times> nat) list" where
  "arabicDigitMap =
     [(0x660, 0x30), (0x661, 0x31), (0x662, 0x32), (0x663, 0x33), (0x664, 0x34),
      (0x665, 0x35), (0x666, 0x36), (0x667, 0x37), (0x668, 0x38), (0x669, 0x39)]"

definition isArabicDigit :: "nat \<Rightarrow> bool" where
  "isArabicDigit c \<longleftrightarrow> 0x660 \<le> c \<and> c \<le> 0x669"

definition replaceDigit :: "nat \<Rightarrow> nat" where
  "replaceDigit digit =
     (if isArabicDigit digit
      then (case map_of arabicDigitMap digit of Some d \<Rightarrow> d | None \<Rightarrow> digit)
      else digit)"

definition normalizeDigits :: "jsstring \<Rightarrow> jsstring" where
  "normalizeDigits v = map replaceDigit v"

definition isSeparator :: "nat \<Rightarrow> bool" where
  "isSeparator c \<longleftrightarrow> c = 0x2F \<or> c = 0x2D \<or> c = 0x2E"

fun split :: "(nat \<Rightarrow> bool) \<Rightarrow> jsstring \<Rightarrow> jsstring list" where
  "split p [] = [[]]"
| "split p (c # cs) =
     (if p c then [] # split p cs
      else (case split p cs of [] \<Rightarrow> [[c]] | r # rs \<Rightarrow> (c # r) # rs))"

section \<open>Date Normalizer\<close>

text \<open>\<^verbatim>\<open>Date.UTC(1899, 11, 30)\<close>: 25569 days before 1970-01-01.\<close>

definition excelEpoch :: int where
  "excelEpoch = - 2209161600000"

definition toInteger :: "rat \<Rightarrow> int" where
  "toInteger t = (if 0 \<le> t then \<lfloor>t\<rfloor> else \<lceil>t\<rceil>)"

text \<open>
  The date constructor on a number: a value beyond 8.64e15 in magnitude, or not
  finite, gives an invalid date; otherwise the fraction is dropped.
\<close>

definition timeClip :: "number \<Rightarrow> int option" where
  "timeClip n =
     (case n of
        Fin t \<Rightarrow> if 8640000000000000 < \<bar>t\<bar> then None else Some (toInteger t)
      | _ \<Rightarrow> None)"

definition parseText :: "host \<Rightarrow> jsstring \<Rightarrow> int option" where
  "parseText h v =
     (let normalized = normalizeDigits (trim v) in
      if normalized = [] then None
      else (case dateParse h normalized of
              Some parsed \<Rightarrow> Some parsed
            | None \<Rightarrow>
                if list_ex isSeparator normalized then
                  (let parts = map trim (split isSeparator normalized) in
                   if 3 \<le> length parts then
                     (let day = toNumber h (parts ! 0);
                          month = toNumber h (parts ! 1);
                          year = toNumber h (parts ! 2)
                      in localDate h year (minus_number month (Fin 1)) day)
                   else None)
                else None))"

definition parseDate :: "host \<Rightarrow> cell \<Rightarrow> int option" where
  "parseDate h v =
     (case v of
        CDate (Some t) \<Rightarrow> Some t
      | CDate None \<Rightarrow> None
      | CNumber n \<Rightarrow>
          (let ms = times_number (times_number (times_number (times_number n (Fin 24))
                      (Fin 60)) (Fin 60)) (Fin 1000)
           in timeClip (plus_number (Fin (of_int excelEpoch)) ms))
      | CString s \<Rightarrow> parseText h s
      | CNull \<Rightarrow> None
      | CBool b \<Rightarrow> None)"

section \<open>Duration Calculator\<close>

text \<open>\<^verbatim>\<open>Math.round\<close> of a finite double: the nearest integer, a tie going up.\<close>

definition mathRound :: "rat \<Rightarrow> int" where
  "mathRound x = \<lfloor>x + 1 / 2\<rfloor>"

text \<open>
  The two arguments are the time values of valid dates, whole numbers of milliseconds
  that are doubles as they stand. The difference and the quotient are double
  operations; a quotient that is not finite, or negative, is refused.
\<close>

definition minutesBetween :: "int \<Rightarrow> int \<Rightarrow> int option" where
  "minutesBetween start end' =
     (let diff = divide_number (minus_number (Fin (of_int end')) (Fin (of_int start)))
                   (times_number (Fin 1000) (Fin 60))
      in case diff of
           Fin q \<Rightarrow> if q < 0 then None else Some (mathRound q)
         | _ \<Rightarrow> None)"

section \<open>Row Transformer\<close>

text \<open>A parsed sheet row: the header labels with the cell under each, in sheet order.\<close>

type_synonym rawrow = "(jsstring \<times> cell) list"

definition colPatientCode :: jsstring where
  "colPatientCode = [0x643, 0x648, 0x62F, 0x20, 0x627, 0x644, 0x645, 0x631, 0x64A, 0x636]"

definition colUserName :: jsstring where
  "colUserName =
     [0x627, 0x633, 0x645, 0x20, 0x627, 0x644, 0x645, 0x633, 0x62A, 0x62E, 0x62F, 0x645]"

definition colDoctorName :: jsstring where
  "colDoctorName = [0x627, 0x633, 0x645, 0x20, 0x627, 0x644, 0x637, 0x628, 0x64A, 0x628]"

definition colSentDate :: jsstring where
  "colSentDate =
     [0x62A, 0x627, 0x631, 0x64A, 0x62E, 0x20, 0x627, 0x644, 0x625, 0x631, 0x633, 0x627,
      0x644]"

definition colDeliveredDate :: jsstring where
  "colDeliveredDate =
     [0x62A, 0x627, 0x631, 0x64A, 0x62E, 0x20, 0x627, 0x644, 0x62A, 0x633, 0x644, 0x64A,
      0x645]"

definition colApprovedDate :: jsstring where
  "colApprovedDate =
     [0x62A, 0x627, 0x631, 0x64A, 0x62E, 0x20, 0x627, 0x644, 0x645, 0x648, 0x627, 0x641,
      0x642, 0x629]"

definition REQUIRED_COLUMNS :: "jsstring list" where
  "REQUIRED_COLUMNS =
     [colPatientCode, colUserName, colDoctorName, colSentDate, colDeliveredDate,
      colApprovedDate]"

record ParsedRow =
  patientCode :: jsstring
  userName :: jsstring
  doctorName :: jsstring
  sentDate :: int
  deliveredDate :: int
  approvedDate :: int
  waitingTime :: int
  handlingTime :: int
  totalTat :: int

text \<open>\<^verbatim>\<open>String(row[col] ?? "").trim()\<close>; an absent key reads as undefined.\<close>

definition textField :: "host \<Rightarrow> rawrow \<Rightarrow> jsstring \<Rightarrow> jsstring" where
  "textField h row col =
     trim (case map_of row col of
             None \<Rightarrow> []
           | Some CNull \<Rightarrow> []
           | Some (CString s) \<Rightarrow> s
           | Some v \<Rightarrow> toString h v)"

text \<open>\<^verbatim>\<open>parseDate(row[col])\<close>; undefined is none of the three accepted kinds.\<close>

definition dateField :: "host \<Rightarrow> rawrow \<Rightarrow> jsstring \<Rightarrow> int option" where
  "dateField h row col = (case map_of row col of None \<Rightarrow> None | Some v \<Rightarrow> parseDate h v)"

text \<open>The body of the loop over the rows: \<open>None\<close> is a skipped row.\<close>

definition transformRow :: "host \<Rightarrow> rawrow \<Rightarrow> ParsedRow option" where
  "transformRow h row =
     (let pc = textField h row colPatientCode;
          un = textField h row colUserName;
          dn = textField h row colDoctorName;
          sent = dateField h row colSentDate;
          delivered = dateField h row colDeliveredDate;
          approved = dateField h row colApprovedDate
      in if pc = [] \<or> un = [] \<or> dn = [] then None
         else (case (sent, delivered, approved) of
                 (Some s, Some d, Some a) \<Rightarrow>
                   (case (minutesBetween s d, minutesBetween d a, minutesBetween s a) of
                      (Some w, Some ht, Some tat) \<Rightarrow>
                        Some \<lparr>patientCode = pc, userName = un, doctorName = dn,
                              sentDate = s, deliveredDate = d, approvedDate = a,
                              waitingTime = w, handlingTime = ht, totalTat = tat\<rparr>
                    | _ \<Rightarrow> None)
               | _ \<Rightarrow> None))"

fun rowsLoop :: "host \<Rightarrow> rawrow list \<Rightarrow> nat \<times> ParsedRow list \<Rightarrow> nat \<times> ParsedRow list" where
  "rowsLoop h [] acc = acc"
| "rowsLoop h (row # rows) (skipped, parsed) =
     (case transformRow h row of
        None \<Rightarrow> rowsLoop h rows (skipped + 1, parsed)
      | Some r \<Rightarrow> rowsLoop h rows (skipped, parsed @ [r]))"

section \<open>Aggregator\<close>

record AgentMetrics =
  agentUserName :: jsstring
  totalRequests :: nat
  averageHandlingTime :: number
  handlingSla :: number

record bucket =
  hour :: nat
  count :: nat

record TeamMetrics =
  averageWaitingTime :: number
  assignmentSla :: number
  peakHours :: "bucket list"

record agentData =
  total :: nat
  handlingSum :: number
  handlingSlaCount :: nat

text \<open>
  The errors the handler ends in, by kind; each stands for the message it sets. The
  missing columns are named in theirs. \<open>Unexpected\<close> is any other exception.
\<close>

datatype error =
    MissingSheet
  | NoRows
  | MissingColumns "jsstring list"
  | NoValidRows
  | Unexpected

text \<open>The hour of the day of a time value in local time.\<close>

definition getHours :: "host \<Rightarrow> int \<Rightarrow> nat" where
  "getHours h t = nat (((t + localOffset h t) div 3600000) mod 24)"

definition initialPeakHours :: "bucket list" where
  "initialPeakHours = map (\<lambda>i. \<lparr>hour = i, count = 0\<rparr>) [0..<24]"

text \<open>
  The accumulators of the loop over the validated records: the agent map in insertion
  order, the sum of the waiting times, the count of waiting times within ten minutes,
  and the 24 hour buckets. The sums are sums of doubles. The counts are natural
  numbers: a count never exceeds the length of the array of records, far below
  \<open>2 ^ 53\<close>, where counting in doubles is exact. Reading a bucket that does not
  exist is a type error.
\<close>

type_synonym aggregates = "(jsstring \<times> agentData) list \<times> number \<times> nat \<times> bucket list"

definition aggregateRow :: "host \<Rightarrow> ParsedRow \<Rightarrow> aggregates \<Rightarrow> error + aggregates" where
  "aggregateRow h row acc =
     (case acc of (agentMap, waitingSum, waitingSlaCount, buckets) \<Rightarrow>
        (let agent0 = (case map_of agentMap (userName row) of
                         None \<Rightarrow> \<lparr>total = 0, handlingSum = Fin 0, handlingSlaCount = 0\<rparr>
                       | Some a \<Rightarrow> a);
             agent1 = agent0\<lparr>total := total agent0 + 1,
                             handlingSum :=
                               plus_number (handlingSum agent0)
                                 (Fin (of_int (handlingTime row)))\<rparr>;
             agent2 = (if handlingTime row \<le> 20
                       then agent1\<lparr>handlingSlaCount := handlingSlaCount agent1 + 1\<rparr>
                       else agent1);
             hr = getHours h (sentDate row)
         in if hr < length buckets
            then Inr (AList.update (userName row) agent2 agentMap,
                      plus_number waitingSum (Fin (of_int (waitingTime row))),
                      (if waitingTime row \<le> 10 then waitingSlaCount + 1 else waitingSlaCount),
                      buckets[hr := (buckets ! hr)\<lparr>count := count (buckets ! hr) + 1\<rparr>])
            else Inl Unexpected))"

fun aggregateLoop :: "host \<Rightarrow> ParsedRow list \<Rightarrow> aggregates \<Rightarrow> error + aggregates" where
  "aggregateLoop h [] acc = Inr acc"
| "aggregateLoop h (row # rows) acc =
     (case aggregateRow h row acc of
        Inl e \<Rightarrow> Inl e
      | Inr acc' \<Rightarrow> aggregateLoop h rows acc')"

definition agentMetricsOf :: "jsstring \<times> agentData \<Rightarrow> AgentMetrics" where
  "agentMetricsOf e =
     (case e of (name, d) \<Rightarrow>
        \<lparr>agentUserName = name,
         totalRequests = total d,
         averageHandlingTime = divide_number (handlingSum d) (Fin (of_nat (total d))),
         handlingSla =
           times_number
             (divide_number (Fin (of_nat (handlingSlaCount d))) (Fin (of_nat (total d))))
             (Fin 100)\<rparr>)"

text \<open>The two sorts are stable and descending: by requests, and by bucket count.\<close>

definition sortAgents :: "AgentMetrics list \<Rightarrow> AgentMetrics list" where
  "sortAgents ms = sort_key (\<lambda>a. - int (totalRequests a)) ms"

definition topHours :: "bucket list \<Rightarrow> bucket list" where
  "topHours buckets =
     filter (\<lambda>item. 0 < count item) (take 3 (sort_key (\<lambda>b. - int (count b)) buckets))"

text \<open>
  The part of the handler after the loop over the rows: no validated record is fatal,
  otherwise the records are folded into the agent metrics and the team metrics.
\<close>

definition aggregator :: "host \<Rightarrow> ParsedRow list \<Rightarrow> error + AgentMetrics list \<times> TeamMetrics" where
  "aggregator h parsed =
     (if parsed = [] then Inl NoValidRows
      else (case aggregateLoop h parsed ([], Fin 0, 0, initialPeakHours) of
              Inl e \<Rightarrow> Inl e
            | Inr (agentMap, waitingSum, waitingSlaCount, buckets) \<Rightarrow>
                Inr (sortAgents (map agentMetricsOf agentMap),
                     \<lparr>averageWaitingTime =
                        divide_number waitingSum (Fin (of_nat (length parsed))),
                      assignmentSla =
                        times_number
                          (divide_number (Fin (of_nat waitingSlaCount))
                             (Fin (of_nat (length parsed))))
                          (Fin 100),
                      peakHours = topHours buckets\<rparr>)))"

section \<open>The run on one file\<close>

type_synonym pipelineOutput = "ParsedRow list \<times> AgentMetrics list \<times> TeamMetrics \<times> nat"

text \<open>
  The guarded part of the handler. Its argument is what the workbook holds under the
  sheet name \<^verbatim>\<open>ag-grid\<close>: nothing, or the rows read from that sheet.
\<close>

definition process :: "host \<Rightarrow> rawrow list option \<Rightarrow> error + pipelineOutput" where
  "process h sheet =
     (case sheet of
        None \<Rightarrow> Inl MissingSheet
      | Some [] \<Rightarrow> Inl NoRows
      | Some (row0 # rest) \<Rightarrow>
          (let rows = row0 # rest;
               missingColumns = filter (\<lambda>column. column \<notin> set (map fst row0)) REQUIRED_COLUMNS
           in if missingColumns \<noteq> [] then Inl (MissingColumns missingColumns)
              else (case rowsLoop h rows (0, []) of (skipped, parsed) \<Rightarrow>
                      (case aggregator h parsed of
                         Inl e \<Rightarrow> Inl e
                       | Inr (agentMetrics, teamStats) \<Rightarrow>
                           Inr (parsed, agentMetrics, teamStats, skipped)))))"

record upload =
  name :: jsstring
  sheet :: "rawrow list option"

record state =
  error :: "error option"
  fileName :: "jsstring option"
  parsedRows :: "ParsedRow list"
  agents :: "AgentMetrics list"
  teamMetrics :: "TeamMetrics option"
  skippedCount :: nat

definition handleFileChange :: "host \<Rightarrow> upload option \<Rightarrow> state \<Rightarrow> state" where
  "handleFileChange h f st =
     (let st0 = st\<lparr>error := None, parsedRows := [], agents := [], teamMetrics := None,
                   skippedCount := 0\<rparr>
      in case f of
           None \<Rightarrow> st0\<lparr>fileName := None\<rparr>
         | Some fl \<Rightarrow>
             (let st1 = st0\<lparr>fileName := Some (name fl)\<rparr>
              in case process h (sheet fl) of
                   Inl e \<Rightarrow> st1\<lparr>error := Some e\<rparr>
                 | Inr (parsed, agentMetrics, teamStats, skipped) \<Rightarrow>
                     st1\<lparr>parsedRows := parsed, agents := agentMetrics,
                         teamMetrics := Some teamStats, skippedCount := skipped\<rparr>))"

section \<open>The digit replacement of the specification\<close>

text \<open>
  The replacement as the specification words it: an Arabic-Indic digit becomes the ASCII
  digit of the same value, every other code unit is kept. It is stated by arithmetic on
  the code unit, not by the table of the program.
\<close>

definition asciiEquivalent :: "nat \<Rightarrow> nat" where
  "asciiEquivalent c = (if 0x660 \<le> c \<and> c \<le> 0x669 then c - 0x660 + 0x30 else c)"

section \<open>Example inputs\<close>

text \<open>
  A runtime in the UTC time zone. The examples below hold native dates and text cells
  only, so its text parsers are never consulted; they reject every text.
\<close>

definition exampleHost :: host where
  "exampleHost =
     \<lparr>dateParse = (\<lambda>s. None), toNumber = (\<lambda>s. NaN), localDate = (\<lambda>y m d. None),
      toString = (\<lambda>c. [0x3F]), localOffset = (\<lambda>t. 0)\<rparr>"

text \<open>
  A complete row for patient \<^verbatim>\<open>P1\<close>, agent \<^verbatim>\<open>A\<close> and doctor \<^verbatim>\<open>D\<close> with three native
  dates, and the record it becomes when the durations are as given.
\<close>

definition exampleRow :: "int \<Rightarrow> int \<Rightarrow> int \<Rightarrow> rawrow" where
  "exampleRow s d a =
     [(colPatientCode, CString [0x50, 0x31]), (colUserName, CString [0x41]),
      (colDoctorName, CString [0x44]), (colSentDate, CDate (Some s)),
      (colDeliveredDate, CDate (Some d)), (colApprovedDate, CDate (Some a))]"

definition exampleRecord :: "int \<Rightarrow> int \<Rightarrow> int \<Rightarrow> int \<Rightarrow> int \<Rightarrow> int \<Rightarrow> ParsedRow" where
  "exampleRecord s d a w ht tat =
     \<lparr>patientCode = [0x50, 0x31], userName = [0x41], doctorName = [0x44],
      sentDate = s, deliveredDate = d, approvedDate = a,
      waitingTime = w, handlingTime = ht, totalTat = tat\<rparr>"

text \<open>2024-01-01 09:00:00 UTC as a time value.\<close>

definition nineOClock :: int where
  "nineOClock = 1704099600000"

text \<open>
  Three validated records: two requests of agent \<^verbatim>\<open>A\<close> sent in the hour from 09:00 and one
  of agent \<^verbatim>\<open>B\<close> sent at 10:00, and the metrics the Aggregator derives from them.
\<close>

definition exampleRecords :: "ParsedRow list" where
  "exampleRecords =
     [exampleRecord nineOClock (nineOClock + 300000) (nineOClock + 1200000) 5 15 20,
      (exampleRecord (nineOClock + 3600000) (nineOClock + 4140000) (nineOClock + 5940000)
         9 30 39)\<lparr>userName := [0x42]\<rparr>,
      exampleRecord (nineOClock + 60000) (nineOClock + 120000) (nineOClock + 180000) 1 1 2]"

definition exampleAgentMetrics :: "AgentMetrics list" where
  "exampleAgentMetrics =
     [\<lparr>agentUserName = [0x41], totalRequests = 2, averageHandlingTime = Fin 8,
       handlingSla = Fin 100\<rparr>,
      \<lparr>agentUserName = [0x42], totalRequests = 1, averageHandlingTime = Fin 30,
       handlingSla = Fin 0\<rparr>]"

definition exampleTeamMetrics :: TeamMetrics where
  "exampleTeamMetrics =
     \<lparr>averageWaitingTime = Fin 5, assignmentSla = Fin 100,
      peakHours = [\<lparr>hour = 9, count = 2\<rparr>, \<lparr>hour = 10, count = 1\<rparr>]\<rparr>"

text \<open>
  A row with all six columns whose doctor cell is empty, a file named \<^verbatim>\<open>f\<close> holding the
  given rows in its sheet, and the state before any file was chosen.
\<close>

definition rowWithoutDoctor :: rawrow where
  "rowWithoutDoctor =
     [(colPatientCode, CString [0x50, 0x32]), (colUserName, CString [0x41]),
      (colDoctorName, CNull), (colSentDate, CDate (Some nineOClock)),
      (colDeliveredDate, CDate (Some (nineOClock + 300000))),
      (colApprovedDate, CDate (Some (nineOClock + 1200000)))]"

definition exampleUpload :: "rawrow list \<Rightarrow> upload" where
  "exampleUpload rows = \<lparr>name = [0x66], sheet = Some rows\<rparr>"

definition initialState :: state where
  "initialState =
     \<lparr>error = None, fileName = None, parsedRows = [], agents = [], teamMetrics = None,
      skippedCount = 0\<rparr>"

text \<open>
  A runtime whose date parser knows one text, \<^verbatim>\<open>2024-01-01\<close>, as midnight UTC of that
  day, and the same date written with Arabic-Indic digits.
\<close>

definition isoDateHost :: host where
  "isoDateHost =
     exampleHost\<lparr>dateParse :=
       (\<lambda>s. if s = [0x32, 0x30, 0x32, 0x34, 0x2D, 0x30, 0x31, 0x2D, 0x30, 0x31]
            then Some 1704067200000 else None)\<rparr>"

definition arabicNewYear :: jsstring where
  "arabicNewYear = [0x662, 0x660, 0x662, 0x664, 0x2D, 0x660, 0x661, 0x2D, 0x660, 0x661]"

section \<open>Rounding to a double\<close>

lemma ilog2_bounds:
  assumes "0 < x"
  shows "2 powi (ilog2 x) \<le> x" and "x < 2 powi (ilog2 x + 1)"
proof -
  obtain p q where pq: "quotient_of x = (p, q)"
    by (cases "quotient_of x")
  have q: "0 < q"
    using pq by (rule quotient_of_denom_pos)
  have x: "x = of_int p / of_int q"
    using pq by (rule quotient_of_div)
  have p: "0 < p"
    using assms q unfolding x by (simp add: zero_less_divide_iff)
  define P Q :: rat where "P = of_int p" and "Q = of_int q"
  have pos: "0 < P" "0 < Q"
    using p q by (simp_all add: P_def Q_def)
  have bp: "1 \<le> bitlen p" and bq: "1 \<le> bitlen q"
    using p q by (simp_all add: bitlen_alt_def)
  have pw: "(2::rat) powi n = of_int (2 ^ nat n)" if "0 \<le> n" for n
    using that by (simp add: power_int_def)
  have "2 ^ nat (bitlen p - 1) \<le> p" "p < 2 ^ nat (bitlen p)"
    using bitlen_bounds [OF p] by simp_all
  then have P: "2 powi (bitlen p - 1) \<le> P" "P < 2 powi (bitlen p)"
    using bp unfolding P_def by (simp_all only: pw of_int_le_iff of_int_less_iff)
  have "2 ^ nat (bitlen q - 1) \<le> q" "q < 2 ^ nat (bitlen q)"
    using bitlen_bounds [OF q] by simp_all
  then have Q: "2 powi (bitlen q - 1) \<le> Q" "Q < 2 powi (bitlen q)"
    using bq unfolding Q_def by (simp_all only: pw of_int_le_iff of_int_less_iff)
  define d where "d = bitlen p - bitlen q"
  have "x < 2 powi (bitlen p) / 2 powi (bitlen q - 1)"
    unfolding x P_def [symmetric] Q_def [symmetric]
    using pos P(2) Q(1) by (intro frac_less) simp_all
  also have "\<dots> = 2 powi (d + 1)"
    by (simp add: d_def power_int_diff [symmetric] algebra_simps)
  finally have up: "x < 2 powi (d + 1)" .
  have "2 powi (bitlen p - 1) / 2 powi (bitlen q) < x"
    unfolding x P_def [symmetric] Q_def [symmetric]
    using pos P(1) Q(2) by (intro frac_less2) simp_all
  moreover have "2 powi (bitlen p - 1) / 2 powi (bitlen q) = (2::rat) powi (d - 1)"
    by (simp add: d_def power_int_diff [symmetric] algebra_simps)
  ultimately have low: "2 powi (d - 1) < x"
    by simp
  have e: "ilog2 x = (if 2 powi d \<le> x then d else d - 1)"
    by (simp add: ilog2_def pq d_def Let_def)
  show "2 powi (ilog2 x) \<le> x"
    using low by (simp add: e)
  show "x < 2 powi (ilog2 x + 1)"
    using up by (simp add: e not_le)
qed

lemma ilog2_less:
  assumes "0 < x" "x < 2 powi K"
  shows "ilog2 x < K"
proof (rule ccontr)
  assume "\<not> ilog2 x < K"
  then have "(2::rat) powi K \<le> 2 powi (ilog2 x)"
    by (intro power_int_increasing) simp_all
  with ilog2_bounds(1) [OF assms(1)] assms(2) show False
    by simp
qed

lemma ilog2_ge:
  assumes "2 powi K \<le> x"
  shows "K \<le> ilog2 x"
proof (rule ccontr)
  have pos: "0 < x"
    using assms by (rule less_le_trans [rotated]) simp
  assume "\<not> K \<le> ilog2 x"
  then have "(2::rat) powi (ilog2 x + 1) \<le> 2 powi K"
    by (intro power_int_increasing) simp_all
  with ilog2_bounds(2) [OF pos] assms show False
    by simp
qed

lemma roundHalfEven_error: "\<bar>of_int (roundHalfEven t) - t\<bar> \<le> 1 / 2"
proof -
  have "of_int \<lfloor>t\<rfloor> \<le> t" "t < of_int \<lfloor>t\<rfloor> + 1"
    by linarith+
  then show ?thesis
    unfolding roundHalfEven_def Let_def by (auto simp: abs_le_iff)
qed

lemma roundHalfEven_of_int: "roundHalfEven (of_int k) = k"
  by (simp add: roundHalfEven_def)

lemma roundMagnitude_ulp:
  assumes "0 < a"
  shows "\<bar>roundMagnitude a - a\<bar> \<le> 2 powi (max (ilog2 a) (- 1022) - 52) / 2"
proof -
  define ulp :: rat where "ulp = 2 powi (max (ilog2 a) (- 1022) - 52)"
  have ulp: "0 < ulp"
    by (simp add: ulp_def)
  have "roundMagnitude a - a = (of_int (roundHalfEven (a / ulp)) - a / ulp) * ulp"
    using ulp by (simp add: roundMagnitude_def Let_def ulp_def [symmetric] algebra_simps)
  then have "\<bar>roundMagnitude a - a\<bar> = \<bar>of_int (roundHalfEven (a / ulp)) - a / ulp\<bar> * ulp"
    using ulp by (simp add: abs_mult)
  also have "\<dots> \<le> (1 / 2) * ulp"
    using roundHalfEven_error [of "a / ulp"] ulp by (intro mult_right_mono) simp_all
  finally show ?thesis
    by (simp add: ulp_def)
qed

lemma roundMagnitude_error:
  assumes "0 < a" "a < 2 powi K" "- 1021 \<le> K"
  shows "\<bar>roundMagnitude a - a\<bar> \<le> 2 powi (K - 54)"
proof -
  have "ilog2 a < K"
    using assms(1,2) by (rule ilog2_less)
  then have "max (ilog2 a) (- 1022) - 52 \<le> K - 53"
    using assms(3) by simp
  then have "(2::rat) powi (max (ilog2 a) (- 1022) - 52) \<le> 2 powi (K - 53)"
    by (intro power_int_increasing) simp_all
  moreover have "(2::rat) powi (K - 53) / 2 = 2 powi (K - 54)"
    using power_int_diff [of "2::rat" "K - 53" 1] by simp
  ultimately show ?thesis
    using roundMagnitude_ulp [OF assms(1)] by linarith
qed

lemma roundMagnitude_relative:
  assumes "2 powi (- 1022) \<le> a"
  shows "\<bar>roundMagnitude a - a\<bar> \<le> a / 2 ^ 53"
proof -
  have pos: "0 < a"
    using assms by (rule less_le_trans [rotated]) simp
  have "- 1022 \<le> ilog2 a"
    using assms by (rule ilog2_ge)
  then have e: "max (ilog2 a) (- 1022) = ilog2 a"
    by simp
  have "(2::rat) powi (ilog2 a - 52) = 2 powi (ilog2 a) / 2 ^ 52"
    using power_int_diff [of "2::rat" "ilog2 a" 52] by simp
  also have "\<dots> \<le> a / 2 ^ 52"
    using ilog2_bounds(1) [OF pos] by (intro divide_right_mono) simp_all
  finally have "(2::rat) powi (ilog2 a - 52) / 2 \<le> a / 2 ^ 53"
    by simp
  then show ?thesis
    using roundMagnitude_ulp [OF pos] unfolding e by linarith
qed

lemma roundMagnitude_exact:
  assumes "0 < k" "k < 2 ^ 53" "- 1074 \<le> j"
  shows "roundMagnitude (of_int k * 2 powi j) = of_int k * 2 powi j"
proof -
  define a :: rat where "a = of_int k * 2 powi j"
  have pos: "0 < a"
    using assms(1) by (simp add: a_def)
  have "a < 2 ^ 53 * 2 powi j"
    unfolding a_def using assms(2) by (intro mult_strict_right_mono) (simp_all flip: of_int_less_iff)
  also have "\<dots> = 2 powi (j + 53)"
    using power_int_add [of "2::rat" j 53] by simp
  finally have "ilog2 a < j + 53"
    using pos by (intro ilog2_less)
  then have n: "0 \<le> j - max (ilog2 a) (- 1022) + 52"
    using assms(3) by simp
  define e where "e = max (ilog2 a) (- 1022)"
  define n where "n = nat (j - e + 52)"
  have split: "(2::rat) powi j = 2 ^ n * 2 powi (e - 52)"
  proof -
    have "(2::rat) powi j = 2 powi (int n + (e - 52))"
      using n by (simp add: n_def e_def)
    also have "\<dots> = 2 powi (int n) * 2 powi (e - 52)"
      by (rule power_int_add) simp
    finally show ?thesis by simp
  qed
  have "a / 2 powi (e - 52) = of_int (k * 2 ^ n)"
    by (simp add: a_def split)
  then have "roundHalfEven (a / 2 powi (e - 52)) = k * 2 ^ n"
    by (simp only: roundHalfEven_of_int)
  then have "roundMagnitude a = of_int (k * 2 ^ n) * 2 powi (e - 52)"
    by (simp add: roundMagnitude_def Let_def e_def)
  also have "\<dots> = a"
    by (simp add: a_def split)
  finally show ?thesis
    by (simp add: a_def)
qed

lemma toDouble_exact:
  assumes "\<bar>k\<bar> < 2 ^ 53" "- 1074 \<le> j" "j \<le> 970"
  shows "toDouble (of_int k * 2 powi j) = Fin (of_int k * 2 powi j)"
proof (cases "k = 0")
  case True
  then show ?thesis by (simp add: toDouble_def)
next
  case False
  define x :: rat where "x = of_int k * 2 powi j"
  have mag: "\<bar>x\<bar> = of_int \<bar>k\<bar> * 2 powi j"
    by (simp add: x_def abs_mult)
  have k: "0 < \<bar>k\<bar>"
    using False by simp
  have r: "roundMagnitude \<bar>x\<bar> = \<bar>x\<bar>"
    unfolding mag using k assms(1,2) by (rule roundMagnitude_exact)
  have "\<bar>x\<bar> < 2 ^ 53 * 2 powi j"
    unfolding mag using assms(1) by (intro mult_strict_right_mono) (simp_all flip: of_int_less_iff)
  also have "\<dots> = 2 powi (j + 53)"
    using power_int_add [of "2::rat" j 53] by simp
  also have "\<dots> \<le> 2 powi 1024"
    using assms(3) by (intro power_int_increasing) simp_all
  finally have small: "\<not> 2 powi 1024 \<le> roundMagnitude \<bar>x\<bar>"
    unfolding r by simp
  have nz: "x \<noteq> 0"
    using False by (simp add: x_def)
  have "toDouble x = Fin (if 0 < x then \<bar>x\<bar> else - \<bar>x\<bar>)"
    using nz small by (simp add: toDouble_def Let_def r)
  also have "(if 0 < x then \<bar>x\<bar> else - \<bar>x\<bar>) = x"
    by simp
  finally show ?thesis
    by (simp add: x_def)
qed

lemma toDouble_of_int:
  assumes "\<bar>k\<bar> < 2 ^ 53"
  shows "toDouble (of_int k) = Fin (of_int k)"
  using toDouble_exact [OF assms, of 0] by simp

lemma toDouble_half:
  assumes "\<bar>k\<bar> < 2 ^ 53"
  shows "toDouble (of_int k / 2) = Fin (of_int k / 2)"
  using toDouble_exact [OF assms, of "- 1"] by simp

lemma toDouble_error:
  assumes "\<bar>x\<bar> < 2 powi K" "- 1021 \<le> K" "K \<le> 1023"
  shows "\<exists>y. toDouble x = Fin y \<and> \<bar>y - x\<bar> \<le> 2 powi (K - 54)"
proof (cases "x = 0")
  case True
  then show ?thesis by (simp add: toDouble_def)
next
  case False
  then have pos: "0 < \<bar>x\<bar>"
    by simp
  define y where "y = roundMagnitude \<bar>x\<bar>"
  have err: "\<bar>y - \<bar>x\<bar>\<bar> \<le> 2 powi (K - 54)"
    unfolding y_def using pos assms(1,2) by (rule roundMagnitude_error)
  have "(2::rat) powi (K - 54) \<le> 2 powi K"
    by (intro power_int_increasing) simp_all
  with err assms(1) have "y < 2 powi K + 2 powi K"
    by linarith
  also have "\<dots> = 2 powi (K + 1)"
    using power_int_add [of "2::rat" K 1] by simp
  also have "\<dots> \<le> 2 powi 1024"
    using assms(3) by (intro power_int_increasing) simp_all
  finally have small: "\<not> 2 powi 1024 \<le> y"
    by simp
  have val: "toDouble x = Fin (if 0 < x then y else - y)"
    using False small by (simp add: toDouble_def Let_def y_def)
  have "\<bar>(if 0 < x then y else - y) - x\<bar> = \<bar>y - \<bar>x\<bar>\<bar>"
    using False by (cases "0 < x") (simp_all add: abs_minus_commute)
  with err val show ?thesis
    by simp
qed

lemma toDouble_negative:
  assumes "x \<le> - (2 powi (- 1022))"
  shows "toDouble x = NegInf \<or> (\<exists>y. toDouble x = Fin y \<and> y \<le> x / 2)"
proof -
  have neg: "x < 0"
    using assms by (rule le_less_trans) simp
  then have a: "\<bar>x\<bar> = - x"
    by simp
  define y where "y = roundMagnitude \<bar>x\<bar>"
  have "\<bar>y - \<bar>x\<bar>\<bar> \<le> \<bar>x\<bar> / 2 ^ 53"
    unfolding y_def using assms by (intro roundMagnitude_relative) (simp add: a)
  moreover have "\<bar>x\<bar> / 2 ^ 53 \<le> \<bar>x\<bar> / 2"
    by (intro divide_left_mono) simp_all
  ultimately have "\<bar>x\<bar> / 2 \<le> y"
    by linarith
  then have le: "- y \<le> x / 2"
    by (simp add: a)
  have "toDouble x = (if 2 powi 1024 \<le> y then NegInf else Fin (- y))"
    using neg by (simp add: toDouble_def Let_def y_def)
  with le show ?thesis
    by auto
qed

lemma toDouble_Fin:
  assumes "\<bar>x\<bar> < 2 powi 1023"
  shows "toDouble x = Fin (if 0 < x then roundMagnitude \<bar>x\<bar> else - roundMagnitude \<bar>x\<bar>)"
proof (cases "x = 0")
  case True
  then show ?thesis
    by (simp add: toDouble_def roundMagnitude_def roundHalfEven_def)
next
  case False
  then have pos: "0 < \<bar>x\<bar>"
    by simp
  have "\<bar>roundMagnitude \<bar>x\<bar> - \<bar>x\<bar>\<bar> \<le> 2 powi (1023 - 54)"
    using pos assms by (rule roundMagnitude_error) simp
  moreover have "(2::rat) powi (1023 - 54) \<le> 2 powi 1023"
    by (intro power_int_increasing) simp_all
  ultimately have "roundMagnitude \<bar>x\<bar> < 2 powi 1023 + 2 powi 1023"
    using assms by linarith
  also have "\<dots> = 2 powi 1024"
    using power_int_add [of "2::rat" 1023 1] by simp
  finally show ?thesis
    using False by (simp add: toDouble_def Let_def)
qed

lemma roundMagnitude_eval:
  assumes "2 powi e \<le> a" "a < 2 powi (e + 1)" "- 1022 \<le> e"
    and "roundHalfEven (a / 2 powi (e - 52)) = m"
  shows "roundMagnitude a = of_int m * 2 powi (e - 52)"
proof -
  have pos: "0 < a"
    using assms(1) by (rule less_le_trans [rotated]) simp
  have "e \<le> ilog2 a"
    using assms(1) by (rule ilog2_ge)
  moreover have "ilog2 a < e + 1"
    using pos assms(2) by (rule ilog2_less)
  ultimately have "max (ilog2 a) (- 1022) = e"
    using assms(3) by simp
  then show ?thesis
    by (simp add: roundMagnitude_def Let_def assms(4))
qed

lemma toDouble_numeral:
  assumes "(numeral n :: int) < 2 ^ 53"
  shows "toDouble (numeral n) = Fin (numeral n)"
  using toDouble_of_int [of "numeral n"] assms by simp

lemma toDouble_0: "toDouble 0 = Fin 0"
  by (simp add: toDouble_def)

lemma toDouble_1: "toDouble 1 = Fin 1"
  using toDouble_of_int [of 1] by simp

lemma roundHalfEven_ratio:
  assumes "0 < d"
  shows "roundHalfEven (of_int n / of_int d) =
           (let f = n div d; r = 2 * (n mod d)
            in if r < d then f else if d < r then f + 1 else if even f then f else f + 1)"
proof -
  have fl: "\<lfloor>(of_int n / of_int d :: rat)\<rfloor> = n div d"
    by (rule floor_divide_of_int_eq)
  have "(of_int n :: rat) = of_int (n div d) * of_int d + of_int (n mod d)"
    by (simp flip: of_int_mult of_int_add)
  then have fr: "(of_int n / of_int d :: rat) - of_int (n div d) = of_int (n mod d) / of_int d"
    using assms by (simp add: field_simps)
  have "(of_int (n mod d) / of_int d :: rat) < 1 / 2
      \<longleftrightarrow> (of_int (2 * (n mod d)) :: rat) < of_int d"
    using assms by (simp add: field_simps)
  then have lt: "(of_int (n mod d) / of_int d :: rat) < 1 / 2 \<longleftrightarrow> 2 * (n mod d) < d"
    by (simp only: of_int_less_iff)
  have "1 / 2 < (of_int (n mod d) / of_int d :: rat)
      \<longleftrightarrow> (of_int d :: rat) < of_int (2 * (n mod d))"
    using assms by (simp add: field_simps)
  then have gt: "1 / 2 < (of_int (n mod d) / of_int d :: rat) \<longleftrightarrow> d < 2 * (n mod d)"
    by (simp only: of_int_less_iff)
  show ?thesis
    unfolding roundHalfEven_def Let_def fl fr lt gt ..
qed

lemma toDouble_evalI:
  assumes "0 < x" "2 powi e \<le> x" "x < 2 powi (e + 1)" "- 1022 \<le> e" "e \<le> 1022"
    and "x / 2 powi (e - 52) = of_int n / of_int d" "0 < d"
    and "m = (let f = n div d; r = 2 * (n mod d)
              in if r < d then f else if d < r then f + 1 else if even f then f else f + 1)"
    and "y = of_int m * 2 powi (e - 52)"
  shows "toDouble x = Fin y"
proof -
  have "roundHalfEven (x / 2 powi (e - 52)) = m"
    unfolding assms(6,8) using assms(7) by (rule roundHalfEven_ratio)
  with assms(2,3,4) have "roundMagnitude x = y"
    unfolding assms(9) by (rule roundMagnitude_eval)
  moreover have "x < 2 powi 1023"
    using assms(3) by (rule less_le_trans) (use assms(5) in \<open>intro power_int_increasing; simp\<close>)
  ultimately show ?thesis
    using assms(1) by (simp add: toDouble_Fin)
qed



section \<open>Rounding to minutes\<close>

lemma sixty_thousand: "toDouble 60000 = Fin 60000"
  by (simp add: toDouble_numeral)

lemma minus_time_values:
  "minus_number (Fin (of_int end')) (Fin (of_int start)) = toDouble (of_int (end' - start))"
  by simp

lemma mathRound_0: "mathRound 0 = 0"
  unfolding mathRound_def by (rule floor_unique) simp_all

lemma minutesBetween_same: "minutesBetween d d = Some 0"
  by (simp add: minutesBetween_def sixty_thousand toDouble_0 mathRound_0)

lemma minutesBetween_before:
  assumes "end' < start"
  shows "minutesBetween start end' = None"
proof -
  define x :: rat where "x = of_int (end' - start)"
  have x: "x \<le> - 1"
    using assms unfolding x_def by (simp flip: of_int_le_iff del: of_int_diff)
  have small: "(2::rat) powi (- 1022) \<le> 1 / 120000"
  proof -
    have "(2::rat) powi (- 1022) \<le> 2 powi (- 17)"
      by (intro power_int_increasing) simp_all
    also have "\<dots> \<le> 1 / 120000"
      by (simp add: power_int_minus field_simps)
    finally show ?thesis .
  qed
  have "x \<le> - (2 powi (- 1022))"
    using x small by linarith
  from toDouble_negative [OF this] consider "toDouble x = NegInf"
    | y where "toDouble x = Fin y" "y \<le> x / 2"
    by blast
  then show ?thesis
  proof cases
    case 1
    then show ?thesis
      by (simp add: minutesBetween_def sixty_thousand x_def)
  next
    case 2
    have "y / 60000 \<le> - (2 powi (- 1022))"
      using 2(2) x small by linarith
    from toDouble_negative [OF this] consider "toDouble (y / 60000) = NegInf"
      | z where "toDouble (y / 60000) = Fin z" "z \<le> y / 60000 / 2"
      by blast
    then show ?thesis
    proof cases
      case 1
      with 2(1) show ?thesis
        by (simp add: minutesBetween_def sixty_thousand x_def)
    next
      case 2
      note z = this
      have "z < 0"
        using z(2) \<open>y \<le> x / 2\<close> x by linarith
      with z(1) \<open>toDouble x = Fin y\<close> show ?thesis
        by (simp add: minutesBetween_def sixty_thousand x_def)
    qed
  qed
qed

lemma minutesBetween_nonneg:
  assumes "minutesBetween start end' = Some m"
  shows "0 \<le> m"
proof -
  from assms obtain q where "\<not> q < 0" "m = mathRound q"
    by (auto simp: minutesBetween_def Let_def split: number.splits if_splits)
  then show ?thesis
    by (simp add: mathRound_def)
qed

lemma minutesBetween_exact:
  assumes "start \<le> end'" "end' - start < 2 ^ 53"
  shows "minutesBetween start end' = Some ((end' - start + 30000) div 60000)"
proof -
  define d where "d = end' - start"
  define k where "k = (d + 30000) div 60000"
  define r where "r = (d + 30000) mod 60000"
  define x :: rat where "x = of_int d / 60000"
  have d: "0 \<le> d" "d < 2 ^ 53"
    using assms by (simp_all add: d_def)
  have "r < 60000"
    unfolding r_def by simp
  then have r: "0 \<le> r" "r \<le> 59999"
    by (simp_all add: r_def)
  have dk: "d = 60000 * k + r - 30000"
    unfolding k_def r_def by simp
  have xk: "x + 1 / 2 = of_int k + of_int r / 60000"
    unfolding x_def dk by (simp add: field_simps)
  have diff: "minus_number (Fin (of_int end')) (Fin (of_int start)) = Fin (of_int d)"
    using toDouble_of_int [of d] d by (simp add: d_def)
  have "\<bar>x\<bar> < 2 powi 38"
  proof -
    have "x < 2 ^ 53 / 60000"
      unfolding x_def using d(2) by (intro divide_strict_right_mono) (simp_all flip: of_int_less_iff)
    also have "\<dots> \<le> 2 ^ 38"
      by simp
    finally show ?thesis
      using d(1) by (simp add: x_def)
  qed
  from toDouble_error [OF this] obtain q where
    q: "toDouble x = Fin q" and err: "\<bar>q - x\<bar> \<le> 2 powi (38 - 54)"
    by auto
  have e16: "(2::rat) powi (38 - 54) = 1 / 65536"
    by (simp add: power_int_minus field_simps)
  have lower: "of_int k \<le> q + 1 / 2"
  proof (cases "r = 0")
    case True
    then have xh: "x = of_int (2 * k - 1) / 2"
      unfolding x_def dk by (simp add: field_simps)
    have "\<bar>2 * k - 1\<bar> < 2 ^ 53"
      using d True unfolding dk by simp
    then have "toDouble (of_int (2 * k - 1) / 2) = Fin (of_int (2 * k - 1) / 2)"
      by (rule toDouble_half)
    then have "toDouble x = Fin x"
      by (simp only: xh)
    with q have "q = x"
      by simp
    then show ?thesis
      using xk True by simp
  next
    case False
    then have "1 \<le> r"
      using r(1) by simp
    then have "(1::rat) / 60000 \<le> of_int r / 60000"
      by (intro divide_right_mono) (simp_all flip: of_int_le_iff)
    then show ?thesis
      using xk err unfolding e16 by linarith
  qed
  have upper: "q + 1 / 2 < of_int k + 1"
  proof -
    have "(of_int r :: rat) / 60000 \<le> 59999 / 60000"
      using r(2) by (intro divide_right_mono) (simp_all flip: of_int_le_iff)
    then show ?thesis
      using xk err unfolding e16 by linarith
  qed
  have round: "mathRound q = k"
    unfolding mathRound_def using lower upper by (intro floor_unique) simp_all
  have "0 \<le> q"
  proof (cases "d = 0")
      case True
      then have "x = 0"
        by (simp add: x_def)
      with q show ?thesis
        by (simp add: toDouble_0)
    next
      case False
      then have "1 \<le> d"
        using d(1) by simp
      then have "(1::rat) / 60000 \<le> x"
        unfolding x_def by (intro divide_right_mono) (simp_all flip: of_int_le_iff)
      then show ?thesis
        using err unfolding e16 by linarith
  qed
  then have "\<not> q < 0"
    by simp
  have "minutesBetween start end' = Some (mathRound q)"
    using q \<open>\<not> q < 0\<close>
    by (simp add: minutesBetween_def sixty_thousand diff [simplified] x_def [symmetric] d_def [symmetric])
  then show ?thesis
    by (simp add: round k_def d_def)
qed

lemma round_sum_bound:
  fixes a b :: int
  assumes "0 \<le> a" "0 \<le> b"
  shows "\<bar>(a + b + 30000) div 60000 - ((a + 30000) div 60000 + (b + 30000) div 60000)\<bar> \<le> 1"
  using assms by linarith

lemma round_sum_exact:
  fixes a b :: int
  assumes "60000 dvd a \<or> 60000 dvd b"
  shows "(a + b + 30000) div 60000 = (a + 30000) div 60000 + (b + 30000) div 60000"
  using assms by (auto elim!: dvdE)

section \<open>Evaluating the example row\<close>

lemmas col_defs = colPatientCode_def colUserName_def colDoctorName_def colSentDate_def
  colDeliveredDate_def colApprovedDate_def

lemma exampleRow_fields:
  "textField h (exampleRow s d a) colPatientCode = [0x50, 0x31]"
  "textField h (exampleRow s d a) colUserName = [0x41]"
  "textField h (exampleRow s d a) colDoctorName = [0x44]"
  "dateField h (exampleRow s d a) colSentDate = Some s"
  "dateField h (exampleRow s d a) colDeliveredDate = Some d"
  "dateField h (exampleRow s d a) colApprovedDate = Some a"
  by (simp_all add: textField_def dateField_def exampleRow_def col_defs trim_def
        isWhiteSpace_def parseDate_def)

lemma transformRow_example:
  assumes "s \<le> d" "d \<le> a" "a - s < 2 ^ 53"
  shows "transformRow h (exampleRow s d a) =
           Some (exampleRecord s d a ((d - s + 30000) div 60000) ((a - d + 30000) div 60000)
             ((a - s + 30000) div 60000))"
proof -
  have "minutesBetween s d = Some ((d - s + 30000) div 60000)"
    using assms by (intro minutesBetween_exact) simp_all
  moreover have "minutesBetween d a = Some ((a - d + 30000) div 60000)"
    using assms by (intro minutesBetween_exact) simp_all
  moreover have "minutesBetween s a = Some ((a - s + 30000) div 60000)"
    using assms by (intro minutesBetween_exact) simp_all
  ultimately show ?thesis
    by (simp add: transformRow_def exampleRow_fields exampleRecord_def Let_def)
qed

section \<open>What an accepted row carries\<close>

lemma transformRow_Some:
  assumes "transformRow h row = Some r"
  shows "textField h row colPatientCode = patientCode r \<and> patientCode r \<noteq> []"
    and "textField h row colUserName = userName r \<and> userName r \<noteq> []"
    and "textField h row colDoctorName = doctorName r \<and> doctorName r \<noteq> []"
    and "dateField h row colSentDate = Some (sentDate r)"
    and "dateField h row colDeliveredDate = Some (deliveredDate r)"
    and "dateField h row colApprovedDate = Some (approvedDate r)"
    and "minutesBetween (sentDate r) (deliveredDate r) = Some (waitingTime r)"
    and "minutesBetween (deliveredDate r) (approvedDate r) = Some (handlingTime r)"
    and "minutesBetween (sentDate r) (approvedDate r) = Some (totalTat r)"
  using assms
  by (auto simp: transformRow_def Let_def split: if_splits option.splits)

section \<open>Claims about durations\<close>

text \<open>
  C3, as the code has it. For two time values with the end not before the start and less
  than \<open>2 ^ 53\<close> milliseconds apart, the Duration Calculator returns the difference in
  milliseconds divided by 60000 and rounded to the nearest whole minute (a half rounds
  up); with the end before the start it fails; a duration it returns is never negative.
\<close>

theorem minutesBetween_rounds:
  "(start \<le> end' \<and> end' - start < 2 ^ 53 \<longrightarrow>
      minutesBetween start end' = Some (round (of_int (end' - start) / 60000 :: rat)))
   \<and> (end' < start \<longrightarrow> minutesBetween start end' = None)
   \<and> (\<forall>m. minutesBetween start end' = Some m \<longrightarrow> 0 \<le> m)"
proof (intro conjI impI allI)
  assume a: "start \<le> end' \<and> end' - start < 2 ^ 53"
  have "(of_int (end' - start) / 60000 :: rat) + 1 / 2
          = of_int (end' - start + 30000) / of_int 60000"
    by (simp add: field_simps)
  then have "round (of_int (end' - start) / 60000 :: rat) = (end' - start + 30000) div 60000"
    unfolding round_def by (simp only: floor_divide_of_int_eq)
  with a show "minutesBetween start end' = Some (round (of_int (end' - start) / 60000 :: rat))"
    by (simp add: minutesBetween_exact)
next
  assume "end' < start"
  then show "minutesBetween start end' = None"
    by (rule minutesBetween_before)
next
  fix m assume "minutesBetween start end' = Some m"
  then show "0 \<le> m"
    by (rule minutesBetween_nonneg)
qed

theorem minutesBetween_rounds_witness:
  "minutesBetween nineOClock (nineOClock + 330000) = Some 6
   \<and> minutesBetween (nineOClock + 330000) nineOClock = None"
proof -
  have "minutesBetween nineOClock (nineOClock + 330000)
          = Some (round (of_int (nineOClock + 330000 - nineOClock) / 60000 :: rat))"
    using minutesBetween_rounds [of nineOClock "nineOClock + 330000"] by simp
  moreover have "round (of_int (nineOClock + 330000 - nineOClock) / 60000 :: rat) = 6"
    unfolding round_def by (rule floor_unique) simp_all
  moreover have "minutesBetween (nineOClock + 330000) nineOClock = None"
    using minutesBetween_rounds [of "nineOClock + 330000" nineOClock] by simp
  ultimately show ?thesis by simp
qed

text \<open>
  C3 as stated fails: from the time value -5000000000000000 to 4600000000029999, both
  of valid dates, the difference 9600000000029999 is no double and the subtraction
  gives 9600000000030000, so the quotient is 160000000000.5 and the result
  160000000001, where the exact quotient rounds to 160000000000.
\<close>

theorem minutesBetween_rounds_counterexample:
  "minutesBetween (- 5000000000000000) 4600000000029999 = Some 160000000001
   \<and> round (of_int (4600000000029999 - (- 5000000000000000)) / 60000 :: rat) = 160000000000"
proof -
  have sub: "toDouble 9600000000029999 = Fin 9600000000030000"
    by (rule toDouble_evalI [where e = 53 and n = 9600000000029999 and d = 2
          and m = 4800000000015000]) (simp_all add: Let_def)
  have quot: "toDouble (320000000001 / 2) = Fin (320000000001 / 2)"
    using toDouble_half [of 320000000001] by simp
  have rnd: "mathRound (320000000001 / 2) = 160000000001"
    unfolding mathRound_def by (rule floor_unique) simp_all
  have "minutesBetween (- 5000000000000000) 4600000000029999 = Some 160000000001"
    by (simp add: minutesBetween_def sixty_thousand sub quot rnd)
  moreover have "round (of_int (4600000000029999 - (- 5000000000000000)) / 60000 :: rat)
      = 160000000000"
    unfolding round_def by (rule floor_unique) simp_all
  ultimately show ?thesis ..
qed

text \<open>
  C1, as the code has it. A record the Row Transformer emits has its dates in order, and
  its three durations are the three intervals, each rounded to whole minutes on its own.
  When the approval is less than \<open>2 ^ 53\<close> milliseconds after the sending, the total
  turnaround is within one minute of the waiting time plus the handling time, and equal
  to that sum when one of the two gaps is a whole number of minutes.
\<close>

theorem transformRow_turnaround:
  assumes "transformRow h row = Some r"
  shows "sentDate r \<le> deliveredDate r \<and> deliveredDate r \<le> approvedDate r
     \<and> minutesBetween (sentDate r) (deliveredDate r) = Some (waitingTime r)
     \<and> minutesBetween (deliveredDate r) (approvedDate r) = Some (handlingTime r)
     \<and> minutesBetween (sentDate r) (approvedDate r) = Some (totalTat r)
     \<and> (approvedDate r - sentDate r < 2 ^ 53 \<longrightarrow>
          \<bar>totalTat r - (waitingTime r + handlingTime r)\<bar> \<le> 1
        \<and> (60000 dvd (deliveredDate r - sentDate r)
             \<or> 60000 dvd (approvedDate r - deliveredDate r)
            \<longrightarrow> totalTat r = waitingTime r + handlingTime r))"
proof -
  note m = transformRow_Some(7,8,9) [OF assms]
  have sd: "sentDate r \<le> deliveredDate r"
    using m(1) minutesBetween_before [of "deliveredDate r" "sentDate r"] by force
  have da: "deliveredDate r \<le> approvedDate r"
    using m(2) minutesBetween_before [of "approvedDate r" "deliveredDate r"] by force
  define a where "a = deliveredDate r - sentDate r"
  define b where "b = approvedDate r - deliveredDate r"
  have ab: "approvedDate r - sentDate r = a + b" "0 \<le> a" "0 \<le> b"
    using sd da by (simp_all add: a_def b_def)
  have close: "\<bar>totalTat r - (waitingTime r + handlingTime r)\<bar> \<le> 1
        \<and> (60000 dvd a \<or> 60000 dvd b \<longrightarrow> totalTat r = waitingTime r + handlingTime r)"
    if near: "approvedDate r - sentDate r < 2 ^ 53"
  proof -
    have "minutesBetween (sentDate r) (deliveredDate r) = Some ((a + 30000) div 60000)"
      unfolding a_def using sd da near by (intro minutesBetween_exact) simp_all
    with m(1) have w: "waitingTime r = (a + 30000) div 60000"
      by simp
    have "minutesBetween (deliveredDate r) (approvedDate r) = Some ((b + 30000) div 60000)"
      unfolding b_def using sd da near by (intro minutesBetween_exact) simp_all
    with m(2) have ht: "handlingTime r = (b + 30000) div 60000"
      by simp
    have "minutesBetween (sentDate r) (approvedDate r) = Some ((a + b + 30000) div 60000)"
      unfolding ab(1) [symmetric] using sd da near by (intro minutesBetween_exact) simp_all
    with m(3) have tat: "totalTat r = (a + b + 30000) div 60000"
      by simp
    have "\<bar>totalTat r - (waitingTime r + handlingTime r)\<bar> \<le> 1"
      unfolding w ht tat using round_sum_bound [OF ab(2,3)] by simp
    moreover have "totalTat r = waitingTime r + handlingTime r"
      if "60000 dvd a \<or> 60000 dvd b"
      unfolding w ht tat using round_sum_exact [OF that] by simp
    ultimately show ?thesis
      by blast
  qed
  show ?thesis
    using sd da m close unfolding a_def b_def by blast
qed

theorem transformRow_turnaround_witness:
  "transformRow exampleHost (exampleRow nineOClock (nineOClock + 300000) (nineOClock + 1200000))
     = Some (exampleRecord nineOClock (nineOClock + 300000) (nineOClock + 1200000) 5 15 20)
   \<and> \<bar>(20::int) - (5 + 15)\<bar> \<le> 1 \<and> (20::int) = 5 + 15"
proof -
  have e: "transformRow exampleHost
             (exampleRow nineOClock (nineOClock + 300000) (nineOClock + 1200000))
           = Some (exampleRecord nineOClock (nineOClock + 300000) (nineOClock + 1200000) 5 15 20)"
    by (simp add: transformRow_example)
  from transformRow_turnaround [OF e] show ?thesis
    using e by (simp add: exampleRecord_def)
qed

text \<open>
  C1 as stated fails: sent at 09:00:00, delivered at 09:00:30 and approved at 09:01:00,
  the row is accepted with a waiting time of 1, a handling time of 1 and a total
  turnaround of 1.
\<close>

theorem turnaround_sum_counterexample:
  "transformRow exampleHost (exampleRow nineOClock (nineOClock + 30000) (nineOClock + 60000))
     = Some (exampleRecord nineOClock (nineOClock + 30000) (nineOClock + 60000) 1 1 1)
   \<and> totalTat (exampleRecord nineOClock (nineOClock + 30000) (nineOClock + 60000) 1 1 1)
       \<noteq> waitingTime (exampleRecord nineOClock (nineOClock + 30000) (nineOClock + 60000) 1 1 1)
         + handlingTime (exampleRecord nineOClock (nineOClock + 30000) (nineOClock + 60000) 1 1 1)"
  by (simp add: transformRow_example exampleRecord_def)

text \<open>
  C9. The duration from a time value to itself is 0; a row whose three text fields are
  non-empty and whose three date fields normalize to the same time value is accepted,
  with all three durations 0.
\<close>

theorem same_instant_zero:
  "minutesBetween d d = Some 0
   \<and> (textField h row colPatientCode \<noteq> [] \<and> textField h row colUserName \<noteq> []
        \<and> textField h row colDoctorName \<noteq> []
        \<and> dateField h row colSentDate = Some d \<and> dateField h row colDeliveredDate = Some d
        \<and> dateField h row colApprovedDate = Some d
      \<longrightarrow> transformRow h row =
            Some \<lparr>patientCode = textField h row colPatientCode,
                  userName = textField h row colUserName,
                  doctorName = textField h row colDoctorName,
                  sentDate = d, deliveredDate = d, approvedDate = d,
                  waitingTime = 0, handlingTime = 0, totalTat = 0\<rparr>)"
proof -
  have z: "minutesBetween d d = Some 0"
    by (rule minutesBetween_same)
  show ?thesis
    by (simp add: z transformRow_def Let_def)
qed

theorem same_instant_zero_witness:
  "minutesBetween nineOClock nineOClock = Some 0
   \<and> transformRow exampleHost (exampleRow nineOClock nineOClock nineOClock)
       = Some (exampleRecord nineOClock nineOClock nineOClock 0 0 0)"
  using same_instant_zero [of nineOClock exampleHost "exampleRow nineOClock nineOClock nineOClock"]
  by (simp add: exampleRow_fields exampleRecord_def)

section \<open>Numeric day counts\<close>













section \<open>Arabic-Indic digits in date text\<close>

lemma arabic_digit_cases:
  assumes "isArabicDigit c"
  obtains "c = 0x660" | "c = 0x661" | "c = 0x662" | "c = 0x663" | "c = 0x664"
    | "c = 0x665" | "c = 0x666" | "c = 0x667" | "c = 0x668" | "c = 0x669"
proof -
  from assms have "0x660 \<le> c" "c \<le> 0x669"
    by (simp_all add: isArabicDigit_def)
  then have "c = 0x660 \<or> c = 0x661 \<or> c = 0x662 \<or> c = 0x663 \<or> c = 0x664
    \<or> c = 0x665 \<or> c = 0x666 \<or> c = 0x667 \<or> c = 0x668 \<or> c = 0x669"
    by presburger
  then show thesis
    using that by blast
qed

lemma replaceDigit_asciiEquivalent: "replaceDigit c = asciiEquivalent c"
proof (cases "isArabicDigit c")
  case True
  then show ?thesis
    by (rule arabic_digit_cases)
      (simp_all add: replaceDigit_def asciiEquivalent_def isArabicDigit_def arabicDigitMap_def)
next
  case False
  then show ?thesis
    by (auto simp: replaceDigit_def asciiEquivalent_def isArabicDigit_def)
qed

lemma asciiEquivalent_idem: "asciiEquivalent (asciiEquivalent c) = asciiEquivalent c"
  by (auto simp: asciiEquivalent_def)

lemma isWhiteSpace_asciiEquivalent: "isWhiteSpace (asciiEquivalent c) = isWhiteSpace c"
proof (cases "isArabicDigit c")
  case True
  then show ?thesis
    by (rule arabic_digit_cases) (simp_all add: asciiEquivalent_def isWhiteSpace_def)
next
  case False
  then show ?thesis
    by (auto simp: asciiEquivalent_def isArabicDigit_def)
qed

lemma trim_map:
  assumes "\<And>c. isWhiteSpace (f c) = isWhiteSpace c"
  shows "trim (map f s) = map f (trim s)"
proof -
  have comp: "isWhiteSpace \<circ> f = isWhiteSpace"
    using assms by (simp add: fun_eq_iff)
  show ?thesis
    by (simp add: trim_def dropWhile_map rev_map comp)
qed

lemma normalizeDigits_trim_ascii:
  "normalizeDigits (trim (map asciiEquivalent s)) = normalizeDigits (trim s)"
proof -
  have "normalizeDigits (trim (map asciiEquivalent s))
          = map replaceDigit (map asciiEquivalent (trim s))"
    by (simp add: normalizeDigits_def trim_map isWhiteSpace_asciiEquivalent)
  also have "\<dots> = map replaceDigit (trim s)"
    by (simp add: replaceDigit_asciiEquivalent asciiEquivalent_idem)
  finally show ?thesis
    by (simp add: normalizeDigits_def)
qed

text \<open>
  C8. Replacing every Arabic-Indic digit of a text by its ASCII digit does not change
  what the Date Normalizer makes of the text, whatever the runtime's parsers are: the
  same time value, or unparseable for both.
\<close>

theorem parseDate_arabic_digits:
  "parseDate h (CString (map asciiEquivalent s)) = parseDate h (CString s)"
  by (simp add: parseDate_def parseText_def normalizeDigits_trim_ascii)

theorem parseDate_arabic_digits_witness:
  "map asciiEquivalent arabicNewYear = [0x32, 0x30, 0x32, 0x34, 0x2D, 0x30, 0x31, 0x2D, 0x30, 0x31]
   \<and> parseDate isoDateHost (CString (map asciiEquivalent arabicNewYear)) = Some 1704067200000
   \<and> parseDate isoDateHost (CString arabicNewYear) = Some 1704067200000"
proof -
  have a: "map asciiEquivalent arabicNewYear
             = [0x32, 0x30, 0x32, 0x34, 0x2D, 0x30, 0x31, 0x2D, 0x30, 0x31]"
    by (simp add: arabicNewYear_def asciiEquivalent_def)
  have b: "parseDate isoDateHost (CString [0x32, 0x30, 0x32, 0x34, 0x2D, 0x30, 0x31, 0x2D, 0x30, 0x31])
             = Some 1704067200000"
    by (simp add: parseDate_def parseText_def trim_def isWhiteSpace_def normalizeDigits_def
          replaceDigit_def isArabicDigit_def isoDateHost_def)
  from parseDate_arabic_digits [of isoDateHost arabicNewYear] a b show ?thesis
    by simp
qed

section \<open>The loop over the rows\<close>

lemma rowsLoop_eq:
  "rowsLoop h rows (skipped, parsed) =
     (skipped + length (filter (\<lambda>row. transformRow h row = None) rows),
      parsed @ List.map_filter (transformRow h) rows)"
proof (induction rows arbitrary: skipped parsed)
  case Nil
  then show ?case by (simp add: List.map_filter_simps)
next
  case (Cons row rows)
  then show ?case
    by (cases "transformRow h row") (simp_all add: List.map_filter_simps)
qed

lemma length_map_filter_split:
  "length (filter (\<lambda>x. f x = None) xs) + length (List.map_filter f xs) = length xs"
  by (induction xs) (auto simp: List.map_filter_simps split: option.splits)

lemma map_filter_all_None:
  "(\<forall>x\<in>set xs. f x = None) \<Longrightarrow> List.map_filter f xs = []"
  by (induction xs) (auto simp: List.map_filter_simps)

lemma map_filter_some:
  "x \<in> set xs \<Longrightarrow> f x = Some y \<Longrightarrow> List.map_filter f xs \<noteq> []"
  by (induction xs) (auto simp: List.map_filter_simps split: option.splits)

section \<open>The loop over the validated records\<close>

lemma getHours_less: "getHours h t < 24"
  by (simp add: getHours_def nat_less_iff)

lemma aggregateRow_Inr:
  assumes "length bs = 24"
  shows "\<exists>agent hr. aggregateRow h row (am, ws, wc, bs) =
            Inr (AList.update (userName row) agent am, plus_number ws (Fin (of_int (waitingTime row))),
                 (if waitingTime row \<le> 10 then wc + 1 else wc),
                 bs[hr := (bs ! hr)\<lparr>count := count (bs ! hr) + 1\<rparr>])
          \<and> total agent = (case map_of am (userName row) of None \<Rightarrow> 0 | Some a \<Rightarrow> total a) + 1"
proof -
  define agent0 where "agent0 =
    (case map_of am (userName row) of
       None \<Rightarrow> \<lparr>total = 0, handlingSum = Fin 0, handlingSlaCount = 0\<rparr> | Some a \<Rightarrow> a)"
  define agent1 where "agent1 =
    agent0\<lparr>total := total agent0 + 1,
           handlingSum := plus_number (handlingSum agent0) (Fin (of_int (handlingTime row)))\<rparr>"
  define agent2 where "agent2 =
    (if handlingTime row \<le> 20 then agent1\<lparr>handlingSlaCount := handlingSlaCount agent1 + 1\<rparr>
     else agent1)"
  have hr: "getHours h (sentDate row) < length bs"
    using assms getHours_less [of h "sentDate row"] by simp
  have run: "aggregateRow h row (am, ws, wc, bs) =
      Inr (AList.update (userName row) agent2 am, plus_number ws (Fin (of_int (waitingTime row))),
           (if waitingTime row \<le> 10 then wc + 1 else wc),
           bs[getHours h (sentDate row) :=
                (bs ! getHours h (sentDate row))
                  \<lparr>count := count (bs ! getHours h (sentDate row)) + 1\<rparr>])"
    unfolding aggregateRow_def agent0_def agent1_def agent2_def Let_def
    using hr by simp
  have "total agent0 = (case map_of am (userName row) of None \<Rightarrow> 0 | Some a \<Rightarrow> total a)"
    by (simp add: agent0_def split: option.splits)
  then have "total agent2
      = (case map_of am (userName row) of None \<Rightarrow> 0 | Some a \<Rightarrow> total a) + 1"
    by (simp add: agent2_def agent1_def)
  with run show ?thesis
    by (intro exI [of _ agent2] exI [of _ "getHours h (sentDate row)"] conjI)
qed

lemma sum_total_update:
  "sum_list (map (total \<circ> snd) (AList.update k v am))
     + (case map_of am k of None \<Rightarrow> 0 | Some a \<Rightarrow> total a)
   = sum_list (map (total \<circ> snd) am) + total v"
  by (induction am) auto

lemma aggregateLoop_Inr:
  assumes "length bs = 24" "distinct (map fst am)"
  shows "\<exists>am' ws' wc' bs'.
           aggregateLoop h rows (am, ws, wc, bs) = Inr (am', ws', wc', bs')
         \<and> length bs' = 24 \<and> distinct (map fst am')
         \<and> sum_list (map (total \<circ> snd) am') = sum_list (map (total \<circ> snd) am) + length rows
         \<and> fst ` set am' = fst ` set am \<union> userName ` set rows"
  using assms
proof (induction rows arbitrary: am ws wc bs)
  case Nil
  then show ?case by simp
next
  case (Cons row rows)
  from aggregateRow_Inr [OF Cons.prems(1), of h row am ws wc]
  obtain agent hr where
    step: "aggregateRow h row (am, ws, wc, bs) =
            Inr (AList.update (userName row) agent am, plus_number ws (Fin (of_int (waitingTime row))),
                 (if waitingTime row \<le> 10 then wc + 1 else wc),
                 bs[hr := (bs ! hr)\<lparr>count := count (bs ! hr) + 1\<rparr>])"
    and tot: "total agent = (case map_of am (userName row) of None \<Rightarrow> 0 | Some a \<Rightarrow> total a) + 1"
    by (elim exE conjE)
  define am1 where "am1 = AList.update (userName row) agent am"
  define ws1 where "ws1 = plus_number ws (Fin (of_int (waitingTime row)))"
  define wc1 where "wc1 = (if waitingTime row \<le> 10 then wc + 1 else wc)"
  define bs1 where "bs1 = bs[hr := (bs ! hr)\<lparr>count := count (bs ! hr) + 1\<rparr>]"
  have step': "aggregateRow h row (am, ws, wc, bs) = Inr (am1, ws1, wc1, bs1)"
    unfolding am1_def ws1_def wc1_def bs1_def by (rule step)
  have len: "length bs1 = 24"
    using Cons.prems(1) by (simp add: bs1_def)
  have dist: "distinct (map fst am1)"
    unfolding am1_def using Cons.prems(2) by (rule AList.distinct_update)
  have sum: "sum_list (map (total \<circ> snd) am1) = sum_list (map (total \<circ> snd) am) + 1"
    unfolding am1_def using sum_total_update [of "userName row" agent am] tot by linarith
  have keys: "fst ` set am1 = insert (userName row) (fst ` set am)"
    unfolding am1_def by (simp only: AList.dom_update insert_is_Un [symmetric])
  from Cons.IH [OF len dist, of ws1 wc1]
  obtain am' ws' wc' bs' where
    rest: "aggregateLoop h rows (am1, ws1, wc1, bs1) = Inr (am', ws', wc', bs')"
    and p1: "length bs' = 24" and p2: "distinct (map fst am')"
    and p3: "sum_list (map (total \<circ> snd) am') = sum_list (map (total \<circ> snd) am1) + length rows"
    and p4: "fst ` set am' = fst ` set am1 \<union> userName ` set rows"
    by (elim exE conjE)
  have run: "aggregateLoop h (row # rows) (am, ws, wc, bs) = Inr (am', ws', wc', bs')"
    by (simp only: aggregateLoop.simps step' rest sum.case)
  have q3: "sum_list (map (total \<circ> snd) am')
      = sum_list (map (total \<circ> snd) am) + length (row # rows)"
    using p3 sum by simp
  have q4: "fst ` set am' = fst ` set am \<union> userName ` set (row # rows)"
    unfolding p4 keys by simp
  from run p1 p2 q3 q4 show ?case
    by (intro exI conjI)
qed

section \<open>The two sorts\<close>

lemma sum_list_insort_key:
  "sum_list (map g (insort_key f x xs)) = g x + sum_list (map (g :: 'a \<Rightarrow> nat) xs)"
  by (induction xs) simp_all

lemma sum_list_sort_key:
  "sum_list (map g (sort_key f xs)) = sum_list (map (g :: 'a \<Rightarrow> nat) xs)"
  by (induction xs) (simp_all add: sum_list_insort_key)

lemma distinct_map_insort_key:
  "distinct (map g (insort_key f x xs)) \<longleftrightarrow> g x \<notin> g ` set xs \<and> distinct (map g xs)"
  by (induction xs) (auto simp: set_insort_key)

lemma distinct_map_sort_key:
  "distinct (map g (sort_key f xs)) \<longleftrightarrow> distinct (map g xs)"
  by (induction xs) (simp_all add: distinct_map_insort_key)

lemma topHours_length: "length (topHours bs) \<le> 3"
proof -
  have "length (topHours bs) \<le> length (take 3 (sort_key (\<lambda>b. - int (count b)) bs))"
    unfolding topHours_def by (rule length_filter_le)
  also have "\<dots> \<le> 3" by simp
  finally show ?thesis .
qed

lemma topHours_sorted: "sorted_wrt (\<lambda>a b. count b \<le> count a) (topHours bs)"
proof -
  have "sorted (map (\<lambda>b. - int (count b)) (sort_key (\<lambda>b. - int (count b)) bs))"
    by (rule sorted_sort_key)
  then have "sorted_wrt (\<lambda>a b. count b \<le> count a) (sort_key (\<lambda>b. - int (count b)) bs)"
    by (simp add: sorted_map)
  then have "sorted_wrt (\<lambda>a b. count b \<le> count a) (take 3 (sort_key (\<lambda>b. - int (count b)) bs))"
    by (rule sorted_wrt_take)
  then show ?thesis
    unfolding topHours_def by (rule sorted_wrt_filter)
qed

lemma topHours_positive: "b \<in> set (topHours bs) \<Longrightarrow> 0 < count b"
  by (simp add: topHours_def)

section \<open>The aggregator on a non-empty set of records\<close>

lemma agentMetricsOf_fields:
  "agentUserName (agentMetricsOf e) = fst e" "totalRequests (agentMetricsOf e) = total (snd e)"
  by (simp_all add: agentMetricsOf_def split: prod.splits)

lemma aggregator_Inr:
  assumes "parsed \<noteq> []"
  shows "\<exists>am ws wc bs.
           aggregateLoop h parsed ([], Fin 0, 0, initialPeakHours) = Inr (am, ws, wc, bs)
         \<and> aggregator h parsed =
             Inr (sortAgents (map agentMetricsOf am),
                  \<lparr>averageWaitingTime = divide_number ws (Fin (of_nat (length parsed))),
                   assignmentSla =
                     times_number
                       (divide_number (Fin (of_nat wc)) (Fin (of_nat (length parsed))))
                       (Fin 100),
                   peakHours = topHours bs\<rparr>)
         \<and> length bs = 24 \<and> distinct (map fst am)
         \<and> sum_list (map (total \<circ> snd) am) = length parsed
         \<and> fst ` set am = userName ` set parsed"
proof -
  have len0: "length initialPeakHours = 24"
    by (simp add: initialPeakHours_def)
  have dist0: "distinct (map fst ([] :: (jsstring \<times> agentData) list))"
    by simp
  from aggregateLoop_Inr [OF len0 dist0, of h parsed "Fin 0" 0] obtain am ws wc bs where
    run: "aggregateLoop h parsed ([], Fin 0, 0, initialPeakHours) = Inr (am, ws, wc, bs)"
    and p1: "length bs = 24" and p2: "distinct (map fst am)"
    and p3: "sum_list (map (total \<circ> snd) am)
               = sum_list (map (total \<circ> snd) ([] :: (jsstring \<times> agentData) list)) + length parsed"
    and p4: "fst ` set am = fst ` set ([] :: (jsstring \<times> agentData) list) \<union> userName ` set parsed"
    by (elim exE conjE)
  have out: "aggregator h parsed =
             Inr (sortAgents (map agentMetricsOf am),
                  \<lparr>averageWaitingTime = divide_number ws (Fin (of_nat (length parsed))),
                   assignmentSla =
                     times_number
                       (divide_number (Fin (of_nat wc)) (Fin (of_nat (length parsed))))
                       (Fin 100),
                   peakHours = topHours bs\<rparr>)"
    using assms by (simp add: aggregator_def run)
  have q3: "sum_list (map (total \<circ> snd) am) = length parsed"
    using p3 by simp
  have q4: "fst ` set am = userName ` set parsed"
    using p4 by simp
  from run out p1 p2 q3 q4 show ?thesis
    by (intro exI conjI)
qed

text \<open>
  C5. On a non-empty list of validated records the Aggregator succeeds, and the peak
  hours it reports are at most three buckets, in descending order of their counts, none
  with count 0.
\<close>

theorem aggregator_peakHours:
  assumes "parsed \<noteq> []"
  shows "\<exists>agentMetrics teamStats.
           aggregator h parsed = Inr (agentMetrics, teamStats)
         \<and> length (peakHours teamStats) \<le> 3
         \<and> sorted_wrt (\<lambda>a b. count b \<le> count a) (peakHours teamStats)
         \<and> (\<forall>b\<in>set (peakHours teamStats). 0 < count b)"
proof -
  from aggregator_Inr [OF assms, of h] obtain am ws wc bs where
    out: "aggregator h parsed =
             Inr (sortAgents (map agentMetricsOf am),
                  \<lparr>averageWaitingTime = divide_number ws (Fin (of_nat (length parsed))),
                   assignmentSla =
                     times_number
                       (divide_number (Fin (of_nat wc)) (Fin (of_nat (length parsed))))
                       (Fin 100),
                   peakHours = topHours bs\<rparr>)"
    by (elim exE conjE)
  define tm where "tm = \<lparr>averageWaitingTime = divide_number ws (Fin (of_nat (length parsed))),
                   assignmentSla =
                     times_number
                       (divide_number (Fin (of_nat wc)) (Fin (of_nat (length parsed))))
                       (Fin 100),
                   peakHours = topHours bs\<rparr>"
  have ph: "peakHours tm = topHours bs"
    by (simp add: tm_def)
  have "aggregator h parsed = Inr (sortAgents (map agentMetricsOf am), tm)"
    unfolding tm_def by (rule out)
  moreover have "length (peakHours tm) \<le> 3"
    unfolding ph by (rule topHours_length)
  moreover have "sorted_wrt (\<lambda>a b. count b \<le> count a) (peakHours tm)"
    unfolding ph by (rule topHours_sorted)
  moreover have "\<forall>b\<in>set (peakHours tm). 0 < count b"
    unfolding ph by (simp add: topHours_positive)
  ultimately show ?thesis
    by (intro exI conjI)
qed

text \<open>
  C6. On a non-empty list of validated records the Aggregator succeeds; the request
  totals of the agent metrics add up to the number of records, and the agent metrics
  carry each user name of the records exactly once.
\<close>

theorem aggregator_totalRequests:
  assumes "parsed \<noteq> []"
  shows "\<exists>agentMetrics teamStats.
           aggregator h parsed = Inr (agentMetrics, teamStats)
         \<and> sum_list (map totalRequests agentMetrics) = length parsed
         \<and> distinct (map agentUserName agentMetrics)
         \<and> set (map agentUserName agentMetrics) = userName ` set parsed"
proof -
  from aggregator_Inr [OF assms, of h] obtain am ws wc bs where
    out: "aggregator h parsed =
             Inr (sortAgents (map agentMetricsOf am),
                  \<lparr>averageWaitingTime = divide_number ws (Fin (of_nat (length parsed))),
                   assignmentSla =
                     times_number
                       (divide_number (Fin (of_nat wc)) (Fin (of_nat (length parsed))))
                       (Fin 100),
                   peakHours = topHours bs\<rparr>)"
    and p2: "distinct (map fst am)"
    and p3: "sum_list (map (total \<circ> snd) am) = length parsed"
    and p4: "fst ` set am = userName ` set parsed"
    by (elim exE conjE)
  define ams where "ams = sortAgents (map agentMetricsOf am)"
  have n: "map agentUserName (map agentMetricsOf am) = map fst am"
    by (simp add: agentMetricsOf_fields comp_def)
  have t: "map totalRequests (map agentMetricsOf am) = map (total \<circ> snd) am"
    by (simp add: agentMetricsOf_fields comp_def)
  have "sum_list (map totalRequests ams) = sum_list (map totalRequests (map agentMetricsOf am))"
    unfolding ams_def sortAgents_def by (rule sum_list_sort_key)
  then have a: "sum_list (map totalRequests ams) = length parsed"
    unfolding t p3 .
  have "distinct (map agentUserName ams) \<longleftrightarrow> distinct (map agentUserName (map agentMetricsOf am))"
    unfolding ams_def sortAgents_def by (rule distinct_map_sort_key)
  then have b: "distinct (map agentUserName ams)"
    unfolding n using p2 by simp
  have "set ams = set (map agentMetricsOf am)"
    unfolding ams_def sortAgents_def by (rule set_sort)
  then have "set (map agentUserName ams) = set (map agentUserName (map agentMetricsOf am))"
    by (simp only: set_map)
  also have "\<dots> = fst ` set am"
    unfolding n by (rule set_map)
  finally have c: "set (map agentUserName ams) = userName ` set parsed"
    unfolding p4 .
  have "aggregator h parsed = Inr (ams, \<lparr>averageWaitingTime = divide_number ws (Fin (of_nat (length parsed))),
                   assignmentSla =
                     times_number
                       (divide_number (Fin (of_nat wc)) (Fin (of_nat (length parsed))))
                       (Fin 100),
                   peakHours = topHours bs\<rparr>)"
    unfolding ams_def by (rule out)
  with a b c show ?thesis
    by (intro exI conjI)
qed

lemma hours_example:
  "getHours exampleHost nineOClock = 9"
  "getHours exampleHost (nineOClock + 3600000) = 10"
  "getHours exampleHost (nineOClock + 60000) = 9"
  by (simp_all add: getHours_def exampleHost_def nineOClock_def)

lemma buckets_example:
  "length initialPeakHours = 24"
  "initialPeakHours ! 9 = \<lparr>hour = 9, count = 0\<rparr>"
  "initialPeakHours ! 10 = \<lparr>hour = 10, count = 0\<rparr>"
  "initialPeakHours[9 := \<lparr>hour = 9, count = Suc 0\<rparr>] ! 10 = \<lparr>hour = 10, count = 0\<rparr>"
  "initialPeakHours[9 := \<lparr>hour = 9, count = Suc 0\<rparr>, 10 := \<lparr>hour = 10, count = Suc 0\<rparr>] ! 9
     = \<lparr>hour = 9, count = Suc 0\<rparr>"
  "topHours (initialPeakHours[9 := \<lparr>hour = 9, count = Suc 0\<rparr>, 10 := \<lparr>hour = 10, count = Suc 0\<rparr>,
       9 := \<lparr>hour = 9, count = 2\<rparr>])
     = [\<lparr>hour = 9, count = 2\<rparr>, \<lparr>hour = 10, count = Suc 0\<rparr>]"
  by code_simp+

lemma aggregateLoop_example:
  "aggregateLoop exampleHost exampleRecords ([], Fin 0, 0, initialPeakHours) =
     Inr ([([0x41], \<lparr>total = 2, handlingSum = Fin 16, handlingSlaCount = 2\<rparr>),
           ([0x42], \<lparr>total = 1, handlingSum = Fin 30, handlingSlaCount = 0\<rparr>)],
          Fin 15, 3,
          initialPeakHours[9 := \<lparr>hour = 9, count = Suc 0\<rparr>, 10 := \<lparr>hour = 10, count = Suc 0\<rparr>,
            9 := \<lparr>hour = 9, count = 2\<rparr>])"
  by (simp add: exampleRecords_def exampleRecord_def aggregateRow_def Let_def hours_example
        buckets_example toDouble_numeral toDouble_0 numeral_2_eq_2 [symmetric])

lemma aggregator_example:
  "aggregator exampleHost exampleRecords = Inr (exampleAgentMetrics, exampleTeamMetrics)"
proof -
  have ne: "exampleRecords \<noteq> []" "length exampleRecords = 3"
    by (simp_all add: exampleRecords_def)
  show ?thesis
    by (simp add: aggregator_def ne aggregateLoop_example buckets_example sortAgents_def
          agentMetricsOf_def exampleAgentMetrics_def exampleTeamMetrics_def toDouble_numeral
          toDouble_0 toDouble_1)
qed

theorem aggregator_peakHours_witness:
  "exampleRecords \<noteq> []
   \<and> aggregator exampleHost exampleRecords = Inr (exampleAgentMetrics, exampleTeamMetrics)
   \<and> peakHours exampleTeamMetrics = [\<lparr>hour = 9, count = 2\<rparr>, \<lparr>hour = 10, count = 1\<rparr>]
   \<and> length (peakHours exampleTeamMetrics) \<le> 3
   \<and> sorted_wrt (\<lambda>a b. count b \<le> count a) (peakHours exampleTeamMetrics)"
proof -
  have ne: "exampleRecords \<noteq> []"
    by (simp add: exampleRecords_def)
  from aggregator_peakHours [OF ne, of exampleHost] obtain ams tm where
    run: "aggregator exampleHost exampleRecords = Inr (ams, tm)"
    and props: "length (peakHours tm) \<le> 3"
      "sorted_wrt (\<lambda>a b. count b \<le> count a) (peakHours tm)"
    by (elim exE conjE)
  from run have tm: "tm = exampleTeamMetrics"
    by (simp add: aggregator_example)
  have "peakHours exampleTeamMetrics = [\<lparr>hour = 9, count = 2\<rparr>, \<lparr>hour = 10, count = 1\<rparr>]"
    by (simp add: exampleTeamMetrics_def)
  with ne aggregator_example props [unfolded tm] show ?thesis
    by (intro conjI)
qed

theorem aggregator_totalRequests_witness:
  "exampleRecords \<noteq> []
   \<and> aggregator exampleHost exampleRecords = Inr (exampleAgentMetrics, exampleTeamMetrics)
   \<and> sum_list (map totalRequests exampleAgentMetrics) = length exampleRecords
   \<and> map agentUserName exampleAgentMetrics = [[0x41], [0x42]]
   \<and> distinct (map agentUserName exampleAgentMetrics)"
proof -
  have ne: "exampleRecords \<noteq> []"
    by (simp add: exampleRecords_def)
  from aggregator_totalRequests [OF ne, of exampleHost] obtain ams tm where
    run: "aggregator exampleHost exampleRecords = Inr (ams, tm)"
    and props: "sum_list (map totalRequests ams) = length exampleRecords"
      "distinct (map agentUserName ams)"
    by (elim exE conjE)
  from run have ams: "ams = exampleAgentMetrics"
    by (simp add: aggregator_example)
  have "map agentUserName exampleAgentMetrics = [[0x41], [0x42]]"
    by (simp add: exampleAgentMetrics_def)
  with ne aggregator_example props [unfolded ams] show ?thesis
    by (intro conjI)
qed

section \<open>The run as a whole\<close>

lemma process_checked:
  assumes "rows \<noteq> []" "\<forall>c\<in>set REQUIRED_COLUMNS. c \<in> fst ` set (hd rows)"
  shows "process h (Some rows) =
           (case aggregator h (List.map_filter (transformRow h) rows) of
              Inl e \<Rightarrow> Inl e
            | Inr (agentMetrics, teamStats) \<Rightarrow>
                Inr (List.map_filter (transformRow h) rows, agentMetrics, teamStats,
                     length (filter (\<lambda>row. transformRow h row = None) rows)))"
proof -
  from assms(1) obtain row0 rest where rows: "rows = row0 # rest"
    by (cases rows) simp_all
  have "filter (\<lambda>column. column \<notin> set (map fst row0)) REQUIRED_COLUMNS = []"
    using assms(2) by (simp add: rows filter_empty_conv)
  then show ?thesis
    unfolding rows by (simp add: process_def rowsLoop_eq Let_def)
qed

lemma handleFileChange_Some:
  "handleFileChange h (Some f) st =
     (case process h (sheet f) of
        Inl e \<Rightarrow> \<lparr>error = Some e, fileName = Some (name f), parsedRows = [], agents = [],
                  teamMetrics = None, skippedCount = 0\<rparr>
      | Inr (parsed, agentMetrics, teamStats, skipped) \<Rightarrow>
          \<lparr>error = None, fileName = Some (name f), parsedRows = parsed, agents = agentMetrics,
           teamMetrics = Some teamStats, skippedCount = skipped\<rparr>)"
  by (cases st) (simp add: handleFileChange_def Let_def split: sum.splits prod.splits)

section \<open>Claims about the run as a whole\<close>

text \<open>
  C2, as the code has it. In every run that passes the checks before the rows (the
  sheet is present, it has a data row, the six required columns are present) the tally
  of the loop over the rows adds up: skipped rows plus validated records is the number
  of raw rows. When at least one row is validated the run has no error and publishes
  that tally and those records, so the reported skipped count plus the number of
  validated records is the number of raw rows. When every row is skipped the run ends in
  the error for no valid rows before the tally is published: it reports a skipped count
  of 0 and no records.
\<close>

theorem skipped_plus_validated:
  assumes "sheet f = Some rows" and "rows \<noteq> []"
    and "\<forall>c\<in>set REQUIRED_COLUMNS. c \<in> fst ` set (hd rows)"
  shows "fst (rowsLoop h rows (0, [])) + length (snd (rowsLoop h rows (0, []))) = length rows
     \<and> ((\<exists>row\<in>set rows. transformRow h row \<noteq> None) \<longrightarrow>
          error (handleFileChange h (Some f) st) = None
        \<and> skippedCount (handleFileChange h (Some f) st) = fst (rowsLoop h rows (0, []))
        \<and> parsedRows (handleFileChange h (Some f) st) = snd (rowsLoop h rows (0, []))
        \<and> skippedCount (handleFileChange h (Some f) st)
            + length (parsedRows (handleFileChange h (Some f) st)) = length rows)
     \<and> ((\<forall>row\<in>set rows. transformRow h row = None) \<longrightarrow>
          error (handleFileChange h (Some f) st) = Some NoValidRows
        \<and> skippedCount (handleFileChange h (Some f) st) = 0
        \<and> parsedRows (handleFileChange h (Some f) st) = [])"
proof -
  define parsed where "parsed = List.map_filter (transformRow h) rows"
  define skipped where "skipped = length (filter (\<lambda>row. transformRow h row = None) rows)"
  have loop: "rowsLoop h rows (0, []) = (skipped, parsed)"
    by (simp add: rowsLoop_eq skipped_def parsed_def)
  have tally: "skipped + length parsed = length rows"
    unfolding skipped_def parsed_def by (rule length_map_filter_split)
  have proc: "process h (sheet f) =
      (case aggregator h parsed of
         Inl e \<Rightarrow> Inl e
       | Inr (agentMetrics, teamStats) \<Rightarrow> Inr (parsed, agentMetrics, teamStats, skipped))"
    unfolding assms(1) process_checked [OF assms(2,3)] parsed_def skipped_def ..
  have some: "error (handleFileChange h (Some f) st) = None
        \<and> skippedCount (handleFileChange h (Some f) st) = skipped
        \<and> parsedRows (handleFileChange h (Some f) st) = parsed
        \<and> skippedCount (handleFileChange h (Some f) st)
            + length (parsedRows (handleFileChange h (Some f) st)) = length rows"
    if "\<exists>row\<in>set rows. transformRow h row \<noteq> None"
  proof -
    from that obtain row r where "row \<in> set rows" "transformRow h row = Some r"
      by auto
    then have ne: "parsed \<noteq> []"
      unfolding parsed_def by (rule map_filter_some)
    from aggregator_Inr [OF ne, of h] obtain ams tm where
      agg: "aggregator h parsed = Inr (ams, tm)"
      by (elim exE conjE)
    have "handleFileChange h (Some f) st =
        \<lparr>error = None, fileName = Some (name f), parsedRows = parsed, agents = ams,
         teamMetrics = Some tm, skippedCount = skipped\<rparr>"
      by (simp add: handleFileChange_Some proc agg)
    then show ?thesis
      using tally by simp
  qed
  have none: "error (handleFileChange h (Some f) st) = Some NoValidRows
        \<and> skippedCount (handleFileChange h (Some f) st) = 0
        \<and> parsedRows (handleFileChange h (Some f) st) = []"
    if "\<forall>row\<in>set rows. transformRow h row = None"
  proof -
    have "parsed = []"
      unfolding parsed_def using that by (rule map_filter_all_None)
    then have "process h (sheet f) = Inl NoValidRows"
      by (simp add: proc aggregator_def)
    then show ?thesis
      by (simp add: handleFileChange_Some)
  qed
  from tally some none show ?thesis
    unfolding loop by simp
qed

text \<open>
  C7. When every row of the sheet is skipped by the Row Transformer, the run ends in an
  error and publishes no validated records, no agent metrics and no team metrics; the
  run having reached the rows (a data row exists and the six required columns are
  present), the error is the one for no valid rows and the whole state is as given.
\<close>

theorem no_valid_rows:
  assumes "sheet f = Some rows" and "\<forall>row\<in>set rows. transformRow h row = None"
  shows "error (handleFileChange h (Some f) st) \<noteq> None
     \<and> parsedRows (handleFileChange h (Some f) st) = []
     \<and> agents (handleFileChange h (Some f) st) = []
     \<and> teamMetrics (handleFileChange h (Some f) st) = None
     \<and> (rows \<noteq> [] \<and> (\<forall>c\<in>set REQUIRED_COLUMNS. c \<in> fst ` set (hd rows))
          \<longrightarrow> handleFileChange h (Some f) st =
                \<lparr>error = Some NoValidRows, fileName = Some (name f), parsedRows = [],
                 agents = [], teamMetrics = None, skippedCount = 0\<rparr>)"
proof -
  have none: "List.map_filter (transformRow h) rows = []"
    using assms(2) by (rule map_filter_all_None)
  have checked: "process h (sheet f) = Inl NoValidRows"
    if "rows \<noteq> []" "\<forall>c\<in>set REQUIRED_COLUMNS. c \<in> fst ` set (hd rows)"
    unfolding assms(1) process_checked [OF that] by (simp add: none aggregator_def)
  have "\<exists>e. process h (sheet f) = Inl e"
  proof (cases "rows \<noteq> [] \<and> (\<forall>c\<in>set REQUIRED_COLUMNS. c \<in> fst ` set (hd rows))")
    case True
    then show ?thesis using checked by blast
  next
    case False
    then show ?thesis
      unfolding assms(1)
      by (cases rows) (auto simp: process_def Let_def filter_empty_conv)
  qed
  then obtain e where e: "process h (sheet f) = Inl e" ..
  have st: "handleFileChange h (Some f) st =
      \<lparr>error = Some e, fileName = Some (name f), parsedRows = [], agents = [],
       teamMetrics = None, skippedCount = 0\<rparr>"
    by (simp add: handleFileChange_Some e)
  have "e = NoValidRows"
    if "rows \<noteq> [] \<and> (\<forall>c\<in>set REQUIRED_COLUMNS. c \<in> fst ` set (hd rows))"
    using checked that e by simp
  then show ?thesis
    unfolding st by simp
qed

section \<open>Example runs\<close>

lemma transformRow_rowWithoutDoctor: "transformRow h rowWithoutDoctor = None"
proof -
  have "textField h rowWithoutDoctor colDoctorName = []"
    by (simp add: textField_def rowWithoutDoctor_def col_defs trim_def)
  then show ?thesis
    by (simp add: transformRow_def Let_def)
qed

lemma required_columns_example:
  "\<forall>c\<in>set REQUIRED_COLUMNS. c \<in> fst ` set (exampleRow s d a)"
  "\<forall>c\<in>set REQUIRED_COLUMNS. c \<in> fst ` set rowWithoutDoctor"
  by (simp_all add: REQUIRED_COLUMNS_def exampleRow_def rowWithoutDoctor_def)

theorem skipped_plus_validated_witness:
  "error (handleFileChange exampleHost
       (Some (exampleUpload [exampleRow nineOClock (nineOClock + 300000) (nineOClock + 1200000),
                             rowWithoutDoctor])) initialState) = None
   \<and> skippedCount (handleFileChange exampleHost
       (Some (exampleUpload [exampleRow nineOClock (nineOClock + 300000) (nineOClock + 1200000),
                             rowWithoutDoctor])) initialState) = 1
   \<and> parsedRows (handleFileChange exampleHost
       (Some (exampleUpload [exampleRow nineOClock (nineOClock + 300000) (nineOClock + 1200000),
                             rowWithoutDoctor])) initialState)
      = [exampleRecord nineOClock (nineOClock + 300000) (nineOClock + 1200000) 5 15 20]
   \<and> error (handleFileChange exampleHost (Some (exampleUpload [rowWithoutDoctor, rowWithoutDoctor]))
        initialState) = Some NoValidRows
   \<and> skippedCount (handleFileChange exampleHost
        (Some (exampleUpload [rowWithoutDoctor, rowWithoutDoctor])) initialState) = 0"
proof -
  let ?rows = "[exampleRow nineOClock (nineOClock + 300000) (nineOClock + 1200000),
                rowWithoutDoctor]"
  let ?bad = "[rowWithoutDoctor, rowWithoutDoctor]"
  have a: "sheet (exampleUpload ?rows) = Some ?rows" "sheet (exampleUpload ?bad) = Some ?bad"
    by (simp_all add: exampleUpload_def)
  have b: "?rows \<noteq> []" "?bad \<noteq> []"
    by simp_all
  have c: "\<forall>c\<in>set REQUIRED_COLUMNS. c \<in> fst ` set (hd ?rows)"
    "\<forall>c\<in>set REQUIRED_COLUMNS. c \<in> fst ` set (hd ?bad)"
    using required_columns_example by simp_all
  have d: "\<exists>row\<in>set ?rows. transformRow exampleHost row \<noteq> None"
    by (simp add: transformRow_example)
  have e: "\<forall>row\<in>set ?bad. transformRow exampleHost row = None"
    by (simp add: transformRow_rowWithoutDoctor)
  have loop: "rowsLoop exampleHost ?rows (0, [])
      = (1, [exampleRecord nineOClock (nineOClock + 300000) (nineOClock + 1200000) 5 15 20])"
    by (simp add: transformRow_example transformRow_rowWithoutDoctor)
  from skipped_plus_validated [OF a(1) b(1) c(1), of exampleHost initialState,
      THEN conjunct2, THEN conjunct1, THEN mp, OF d]
  have good: "error (handleFileChange exampleHost (Some (exampleUpload ?rows)) initialState) = None
    \<and> skippedCount (handleFileChange exampleHost (Some (exampleUpload ?rows)) initialState) = 1
    \<and> parsedRows (handleFileChange exampleHost (Some (exampleUpload ?rows)) initialState)
       = [exampleRecord nineOClock (nineOClock + 300000) (nineOClock + 1200000) 5 15 20]"
    unfolding loop by simp
  from skipped_plus_validated [OF a(2) b(2) c(2), of exampleHost initialState,
      THEN conjunct2, THEN conjunct2, THEN mp, OF e]
  have bad: "error (handleFileChange exampleHost (Some (exampleUpload ?bad)) initialState)
       = Some NoValidRows
    \<and> skippedCount (handleFileChange exampleHost (Some (exampleUpload ?bad)) initialState) = 0"
    by simp
  from good bad show ?thesis
    by simp
qed

text \<open>
  C2 as stated fails: a sheet whose only row has all six columns and an empty doctor
  cell passes the checks before the rows, the row is skipped, and the run ends in the
  error for no valid rows with a reported skipped count of 0 and no records, so the
  reported count plus the validated records is 0 and the raw rows are 1.
\<close>

theorem reported_skipped_counterexample:
  "sheet (exampleUpload [rowWithoutDoctor]) = Some [rowWithoutDoctor]
   \<and> filter (\<lambda>column. column \<notin> set (map fst rowWithoutDoctor)) REQUIRED_COLUMNS = []
   \<and> handleFileChange exampleHost (Some (exampleUpload [rowWithoutDoctor])) initialState
       = \<lparr>error = Some NoValidRows, fileName = Some [0x66], parsedRows = [], agents = [],
          teamMetrics = None, skippedCount = 0\<rparr>
   \<and> skippedCount (handleFileChange exampleHost (Some (exampleUpload [rowWithoutDoctor]))
         initialState)
       + length (parsedRows (handleFileChange exampleHost
           (Some (exampleUpload [rowWithoutDoctor])) initialState))
       \<noteq> length [rowWithoutDoctor]"
proof -
  have cols: "filter (\<lambda>column. column \<notin> set (map fst rowWithoutDoctor)) REQUIRED_COLUMNS = []"
    using required_columns_example(2) by (simp add: filter_empty_conv)
  have cols': "filter (\<lambda>column. column \<notin> fst ` set rowWithoutDoctor) REQUIRED_COLUMNS = []"
    using required_columns_example(2) by (simp add: filter_empty_conv)
  have "process exampleHost (Some [rowWithoutDoctor]) = Inl NoValidRows"
    by (simp add: process_def Let_def cols' transformRow_rowWithoutDoctor aggregator_def)
  then have st: "handleFileChange exampleHost (Some (exampleUpload [rowWithoutDoctor])) initialState
       = \<lparr>error = Some NoValidRows, fileName = Some [0x66], parsedRows = [], agents = [],
          teamMetrics = None, skippedCount = 0\<rparr>"
    by (simp add: handleFileChange_Some exampleUpload_def)
  have sh: "sheet (exampleUpload [rowWithoutDoctor]) = Some [rowWithoutDoctor]"
    by (simp add: exampleUpload_def)
  have ne: "skippedCount (handleFileChange exampleHost (Some (exampleUpload [rowWithoutDoctor]))
         initialState)
       + length (parsedRows (handleFileChange exampleHost
           (Some (exampleUpload [rowWithoutDoctor])) initialState))
       \<noteq> length [rowWithoutDoctor]"
    unfolding st by simp
  from sh cols st ne show ?thesis
    by (intro conjI)
qed

theorem no_valid_rows_witness:
  "handleFileChange exampleHost (Some (exampleUpload [rowWithoutDoctor, rowWithoutDoctor]))
     initialState
   = \<lparr>error = Some NoValidRows, fileName = Some [0x66], parsedRows = [], agents = [],
      teamMetrics = None, skippedCount = 0\<rparr>"
proof -
  let ?rows = "[rowWithoutDoctor, rowWithoutDoctor]"
  have a: "sheet (exampleUpload ?rows) = Some ?rows"
    by (simp add: exampleUpload_def)
  have b: "\<forall>row\<in>set ?rows. transformRow exampleHost row = None"
    by (simp add: transformRow_rowWithoutDoctor)
  have c: "?rows \<noteq> [] \<and> (\<forall>c\<in>set REQUIRED_COLUMNS. c \<in> fst ` set (hd ?rows))"
    using required_columns_example(2) by simp
  from no_valid_rows [OF a b, of initialState] c show ?thesis
    by (simp add: exampleUpload_def)
qed

end
